theory Spec2Isabelle
  imports Main
begin

unbundle bit_operations_syntax

section \<open>A two-pass RISC-V assembler (riscv_assembler.py)\<close>

text \<open>
  The development embeds \<^verbatim>\<open>riscv_assembler.py\<close>, class \<^verbatim>\<open>RISCVAssembler\<close>.
  Python's unbounded integers are \<open>int\<close>; \<open>x << n\<close> is \<open>push_bit n x\<close>, \<open>x >> n\<close> is
  \<open>drop_bit n x\<close> (both round towards minus infinity on negative numbers, as Python
  does) and \<open>&\<close>, \<open>|\<close> are \<open>AND\<close>, \<open>OR\<close> on \<open>int\<close> (two's complement of unbounded
  width, as in Python). Strings are \<open>string\<close>; the source text is taken to be ASCII:
  a character above 127 is an ordinary character here (neither white space, a digit,
  a word character nor a capital letter). Every \<^verbatim>\<open>raise\<close> of the source is a value
  \<open>Inl e\<close> of the result.
\<close>

subsection \<open>Python string primitives\<close>

text \<open>\<^verbatim>\<open>str.isspace\<close> on ASCII: TAB, LF, VT, FF, CR, FS, GS, RS, US and the blank.\<close>

definition is_space :: "char \<Rightarrow> bool" where
  "is_space c \<longleftrightarrow> c \<in> set [CHR 0x09, CHR 0x0A, CHR 0x0B, CHR 0x0C, CHR 0x0D,
                            CHR 0x1C, CHR 0x1D, CHR 0x1E, CHR 0x1F, CHR 0x20]"

text \<open>The regular expression classes \<^verbatim>\<open>\d\<close> and \<^verbatim>\<open>\w\<close> on ASCII.\<close>

definition is_digit :: "char \<Rightarrow> bool" where
  "is_digit c \<longleftrightarrow> c \<in> set ''0123456789''"

definition is_word :: "char \<Rightarrow> bool" where
  "is_word c \<longleftrightarrow> c \<in> set ''0123456789abcdefghijklmnopqrstuvwxyzABCDEFGHIJKLMNOPQRSTUVWXYZ_''"

text \<open>\<^verbatim>\<open>s.strip()\<close>\<close>

definition strip :: "string \<Rightarrow> string" where
  "strip s = rev (dropWhile is_space (rev (dropWhile is_space s)))"

text \<open>\<^verbatim>\<open>s.lower()\<close>\<close>

definition lower_char :: "char \<Rightarrow> char" where
  "lower_char c =
     (case map_of (zip ''ABCDEFGHIJKLMNOPQRSTUVWXYZ'' ''abcdefghijklmnopqrstuvwxyz'') c of
        None \<Rightarrow> c | Some d \<Rightarrow> d)"

definition lower :: "string \<Rightarrow> string" where
  "lower s = map lower_char s"

text \<open>\<^verbatim>\<open>s.replace(',', '')\<close> and \<^verbatim>\<open>s.replace(',', ' ')\<close>\<close>

definition remove_commas :: "string \<Rightarrow> string" where
  "remove_commas s = filter (\<lambda>c. c \<noteq> CHR '','') s"

definition commas_to_blanks :: "string \<Rightarrow> string" where
  "commas_to_blanks s = map (\<lambda>c. if c = CHR '','' then CHR '' '' else c) s"

text \<open>
  \<^verbatim>\<open>s.split()\<close>: the maximal runs of characters that are not white space. The first
  argument of the loop is the run read so far.
\<close>

fun split_run :: "string \<Rightarrow> string \<Rightarrow> string list" where
  "split_run cur [] = (if cur = [] then [] else [cur])"
| "split_run cur (c # cs) =
     (if is_space c then (if cur = [] then split_run [] cs else cur # split_run [] cs)
      else split_run (cur @ [c]) cs)"

definition split_ws :: "string \<Rightarrow> string list" where
  "split_ws s = split_run [] s"

text \<open>\<^verbatim>\<open>s.split(d)\<close> for a one-character separator: never empty.\<close>

fun split_on :: "char \<Rightarrow> string \<Rightarrow> string list" where
  "split_on d [] = [[]]"
| "split_on d (c # cs) =
     (if c = d then [] # split_on d cs
      else (case split_on d cs of [] \<Rightarrow> [[c]] | x # xs \<Rightarrow> (c # x) # xs))"

text \<open>\<^verbatim>\<open>s.startswith(p)\<close>\<close>

definition startswith :: "string \<Rightarrow> string \<Rightarrow> bool" where
  "startswith s p \<longleftrightarrow> take (length p) s = p"

subsection \<open>Python's \<^verbatim>\<open>int(s, base)\<close>\<close>

text \<open>
  \<^verbatim>\<open>int(s, base)\<close> for the bases 2, 10 and 16: white space around the literal is
  dropped, a sign may come first, then (bases 2 and 16) the prefix \<^verbatim>\<open>0b\<close> or \<^verbatim>\<open>0x\<close>,
  which one underscore may follow, then digits, where single underscores may stand
  between two digits. \<open>None\<close> is the \<^verbatim>\<open>ValueError\<close> that \<^verbatim>\<open>int\<close> raises: for an
  invalid literal, and for a literal of more than 4300 digits in a base that is not a
  power of two (the interpreter's default limit \<^verbatim>\<open>sys.int_max_str_digits\<close>, which counts
  the digits without sign and underscores).
\<close>

definition digit_value :: "char \<Rightarrow> nat option" where
  "digit_value c =
     map_of (zip ''0123456789abcdefghijklmnopqrstuvwxyz'' [0 ..< 36]
           @ zip ''ABCDEFGHIJKLMNOPQRSTUVWXYZ'' [10 ..< 36]) c"

text \<open>
  The digit loop: \<open>acc\<close> is the value read so far, \<open>seen\<close> says that a digit has been
  read and \<open>us\<close> that the previous character was an underscore. The whole rest of
  the literal has to be digits and underscores.
\<close>

fun int_digits :: "nat \<Rightarrow> nat \<Rightarrow> bool \<Rightarrow> bool \<Rightarrow> string \<Rightarrow> nat option" where
  "int_digits base acc seen us [] = (if seen \<and> \<not> us then Some acc else None)"
| "int_digits base acc seen us (c # cs) =
     (if c = CHR ''_'' then (if us \<or> \<not> seen then None else int_digits base acc seen True cs)
      else (case digit_value c of
              None \<Rightarrow> None
            | Some d \<Rightarrow> if d < base then int_digits base (acc * base + d) True False cs
                        else None))"

definition int_prefix :: "nat \<Rightarrow> string \<Rightarrow> string" where
  "int_prefix base s =
     (if (base = 16 \<and> (startswith s ''0x'' \<or> startswith s ''0X''))
       \<or> (base = 2 \<and> (startswith s ''0b'' \<or> startswith s ''0B''))
      then (if startswith (drop 2 s) ''_'' then drop 3 s else drop 2 s)
      else s)"

definition int_max_str_digits :: nat where
  "int_max_str_digits = 4300"

definition py_int :: "nat \<Rightarrow> string \<Rightarrow> int option" where
  "py_int base s =
     (let t = strip s;
          neg = startswith t ''-'';
          u = (if startswith t ''-'' \<or> startswith t ''+'' then drop 1 t else t);
          body = int_prefix base u
      in case int_digits base 0 False False body of
           None \<Rightarrow> None
         | Some n \<Rightarrow>
             if base \<notin> set [2, 4, 8, 16, 32]
                \<and> length (filter (\<lambda>c. c \<noteq> CHR ''_'') body) > int_max_str_digits
             then None
             else Some (if neg then - int n else int n))"

subsection \<open>Errors\<close>

text \<open>
  The exceptions of the source. All but the last two are \<^verbatim>\<open>ValueError\<close>s, named after
  their message; \<open>InvalidLiteral\<close> is the one \<^verbatim>\<open>int()\<close> raises and \<open>NegativeShift\<close> the
  one of \<^verbatim>\<open>1 << (bits - 1)\<close> at \<^verbatim>\<open>bits = 0\<close>.
\<close>

datatype error =
    UnknownRegister string
  | InvalidLiteral string
  | ImmediateOutOfRange int int int
  | InvalidMemoryOperand string
  | UnknownInstruction string
  | NegativeShift
  | IndexError
  | KeyError string

definition and_then :: "error + 'a \<Rightarrow> ('a \<Rightarrow> error + 'b) \<Rightarrow> error + 'b" where
  "and_then m f = (case m of Inl e \<Rightarrow> Inl e | Inr v \<Rightarrow> f v)"

text \<open>\<^verbatim>\<open>parts[i]\<close> and \<^verbatim>\<open>TABLE[key]\<close>\<close>

definition item :: "'a list \<Rightarrow> nat \<Rightarrow> error + 'a" where
  "item xs i = (if i < length xs then Inr (xs ! i) else Inl IndexError)"

definition lookup :: "(string \<times> int) list \<Rightarrow> string \<Rightarrow> error + int" where
  "lookup tbl k = (case map_of tbl k of None \<Rightarrow> Inl (KeyError k) | Some v \<Rightarrow> Inr v)"

subsection \<open>The tables\<close>

definition REGISTERS :: "(string \<times> int) list" where
  "REGISTERS =
    [(''x0'', 0), (''zero'', 0), (''x1'', 1), (''ra'', 1), (''x2'', 2), (''sp'', 2),
     (''x3'', 3), (''gp'', 3), (''x4'', 4), (''tp'', 4), (''x5'', 5), (''t0'', 5),
     (''x6'', 6), (''t1'', 6), (''x7'', 7), (''t2'', 7),
     (''x8'', 8), (''s0'', 8), (''fp'', 8), (''x9'', 9), (''s1'', 9),
     (''x10'', 10), (''a0'', 10), (''x11'', 11), (''a1'', 11), (''x12'', 12), (''a2'', 12),
     (''x13'', 13), (''a3'', 13), (''x14'', 14), (''a4'', 14), (''x15'', 15), (''a5'', 15),
     (''x16'', 16), (''a6'', 16), (''x17'', 17), (''a7'', 17), (''x18'', 18), (''s2'', 18),
     (''x19'', 19), (''s3'', 19), (''x20'', 20), (''s4'', 20), (''x21'', 21), (''s5'', 21),
     (''x22'', 22), (''s6'', 22), (''x23'', 23), (''s7'', 23), (''x24'', 24), (''s8'', 24),
     (''x25'', 25), (''s9'', 25), (''x26'', 26), (''s10'', 26), (''x27'', 27), (''s11'', 27),
     (''x28'', 28), (''t3'', 28), (''x29'', 29), (''t4'', 29), (''x30'', 30), (''t5'', 30),
     (''x31'', 31), (''t6'', 31)]"

definition OPCODES :: "(string \<times> int) list" where
  "OPCODES =
    [(''add'', 0x33), (''sub'', 0x33), (''and'', 0x33), (''or'', 0x33), (''xor'', 0x33),
     (''sll'', 0x33), (''srl'', 0x33), (''sra'', 0x33), (''slt'', 0x33), (''sltu'', 0x33),
     (''addi'', 0x13), (''andi'', 0x13), (''ori'', 0x13), (''xori'', 0x13), (''slti'', 0x13),
     (''sltiu'', 0x13), (''slli'', 0x13), (''srli'', 0x13), (''srai'', 0x13),
     (''lw'', 0x03), (''lh'', 0x03), (''lb'', 0x03), (''lhu'', 0x03), (''lbu'', 0x03),
     (''sw'', 0x23), (''sh'', 0x23), (''sb'', 0x23),
     (''beq'', 0x63), (''bne'', 0x63), (''blt'', 0x63), (''bge'', 0x63), (''bltu'', 0x63),
     (''bgeu'', 0x63),
     (''jal'', 0x6F), (''jalr'', 0x67), (''lui'', 0x37), (''auipc'', 0x17),
     (''ecall'', 0x73), (''halt'', 0x73),
     (''rotl'', 0x0B), (''rotr'', 0x0B), (''rng'', 0x0B)]"

definition FUNCT3 :: "(string \<times> int) list" where
  "FUNCT3 =
    [(''add'', 0), (''sub'', 0), (''sll'', 1), (''slt'', 2), (''sltu'', 3), (''xor'', 4),
     (''srl'', 5), (''sra'', 5), (''or'', 6), (''and'', 7),
     (''addi'', 0), (''slti'', 2), (''sltiu'', 3), (''xori'', 4), (''ori'', 6), (''andi'', 7),
     (''slli'', 1), (''srli'', 5), (''srai'', 5),
     (''lb'', 0), (''lh'', 1), (''lw'', 2), (''lbu'', 4), (''lhu'', 5),
     (''sb'', 0), (''sh'', 1), (''sw'', 2),
     (''beq'', 0), (''bne'', 1), (''blt'', 4), (''bge'', 5), (''bltu'', 6), (''bgeu'', 7),
     (''jalr'', 0),
     (''rotl'', 2), (''rotr'', 3), (''rng'', 4)]"

definition FUNCT7 :: "(string \<times> int) list" where
  "FUNCT7 =
    [(''add'', 0), (''sub'', 0x20), (''sll'', 0), (''slt'', 0), (''sltu'', 0), (''xor'', 0),
     (''srl'', 0), (''sra'', 0x20), (''or'', 0), (''and'', 0),
     (''slli'', 0), (''srli'', 0), (''srai'', 0x20),
     (''rotl'', 0), (''rotr'', 0), (''rng'', 0)]"

subsection \<open>The operand parsers\<close>

definition parse_register :: "string \<Rightarrow> error + int" where
  "parse_register reg_str =
     (let r = remove_commas (lower (strip reg_str))
      in case map_of REGISTERS r of None \<Rightarrow> Inl (UnknownRegister r) | Some n \<Rightarrow> Inr n)"

text \<open>The literal forms of \<^verbatim>\<open>parse_immediate\<close>: hexadecimal, binary, or decimal.\<close>

definition immediate_literal :: "string \<Rightarrow> int option" where
  "immediate_literal s =
     (if startswith s ''0x'' \<or> startswith s ''0X'' then py_int 16 s
      else if startswith s ''0b'' \<or> startswith s ''0B'' then py_int 2 s
      else py_int 10 s)"

definition parse_immediate :: "string \<Rightarrow> nat \<Rightarrow> bool \<Rightarrow> error + int" where
  "parse_immediate imm_str bits signed =
     (let s = remove_commas (strip imm_str)
      in case immediate_literal s of
           None \<Rightarrow> Inl (InvalidLiteral s)
         | Some v \<Rightarrow>
             if signed \<and> bits = 0 then Inl NegativeShift
             else
               let min_val = (if signed then - push_bit (bits - 1) 1 else 0);
                   max_val = (if signed then push_bit (bits - 1) 1 - 1 else push_bit bits 1 - 1)
               in if v < min_val \<or> v > max_val then Inl (ImmediateOutOfRange v min_val max_val)
                  else Inr (if v < 0 then v AND (push_bit bits 1 - 1) else v))"

text \<open>
  The match of \<^verbatim>\<open>(-?\d+)\s*\(\s*(\w+)\s*\)\<close> at the start of a string: the two groups.
  Every repetition is followed by a character outside its class, so the greedy match
  is the only one.
\<close>

definition match_memory_operand :: "string \<Rightarrow> (string \<times> string) option" where
  "match_memory_operand s =
     (let sign = (if startswith s ''-'' then ''-'' else '''');
          r0 = drop (length sign) s;
          ds = takeWhile is_digit r0
      in if ds = [] then None
         else (case dropWhile is_space (dropWhile is_digit r0) of
                 [] \<Rightarrow> None
               | c # r1 \<Rightarrow>
                   if c \<noteq> CHR ''('' then None
                   else let r2 = dropWhile is_space r1;
                            w = takeWhile is_word r2
                        in if w = [] then None
                           else (case dropWhile is_space (dropWhile is_word r2) of
                                   [] \<Rightarrow> None
                                 | d # _ \<Rightarrow> if d = CHR '')'' then Some (sign @ ds, w) else None)))"

definition parse_memory_operand :: "string \<Rightarrow> error + (int \<times> int)" where
  "parse_memory_operand operand =
     (case match_memory_operand (strip operand) of
        None \<Rightarrow> Inl (InvalidMemoryOperand operand)
      | Some (g1, g2) \<Rightarrow>
          and_then (parse_immediate g1 12 True) (\<lambda>offset.
          and_then (parse_register g2) (\<lambda>base_reg. Inr (offset, base_reg))))"

subsection \<open>The instruction encoders\<close>

definition encode_r_type :: "string \<Rightarrow> int \<Rightarrow> int \<Rightarrow> int \<Rightarrow> error + int" where
  "encode_r_type instr rd rs1 rs2 =
     and_then (lookup OPCODES instr) (\<lambda>opcode.
     and_then (lookup FUNCT3 instr) (\<lambda>funct3.
     and_then (lookup FUNCT7 instr) (\<lambda>funct7.
       Inr (push_bit 25 funct7 OR push_bit 20 rs2 OR push_bit 15 rs1 OR push_bit 12 funct3
            OR push_bit 7 rd OR opcode))))"

definition encode_i_type :: "string \<Rightarrow> int \<Rightarrow> int \<Rightarrow> int \<Rightarrow> error + int" where
  "encode_i_type instr rd rs1 imm =
     and_then (lookup OPCODES instr) (\<lambda>opcode.
     and_then (lookup FUNCT3 instr) (\<lambda>funct3.
     and_then (if instr \<in> set [''slli'', ''srli'', ''srai'']
               then and_then (lookup FUNCT7 instr) (\<lambda>funct7.
                      Inr (push_bit 5 funct7 OR (imm AND 0x1F)))
               else Inr imm) (\<lambda>imm'.
       Inr (push_bit 20 (imm' AND 0xFFF) OR push_bit 15 rs1 OR push_bit 12 funct3
            OR push_bit 7 rd OR opcode))))"

definition encode_s_type :: "string \<Rightarrow> int \<Rightarrow> int \<Rightarrow> int \<Rightarrow> error + int" where
  "encode_s_type instr rs2 rs1 imm =
     and_then (lookup OPCODES instr) (\<lambda>opcode.
     and_then (lookup FUNCT3 instr) (\<lambda>funct3.
       let imm_11_5 = drop_bit 5 imm AND 0x7F;
           imm_4_0 = imm AND 0x1F
       in Inr (push_bit 25 imm_11_5 OR push_bit 20 rs2 OR push_bit 15 rs1
               OR push_bit 12 funct3 OR push_bit 7 imm_4_0 OR opcode)))"

definition encode_b_type :: "string \<Rightarrow> int \<Rightarrow> int \<Rightarrow> int \<Rightarrow> error + int" where
  "encode_b_type instr rs1 rs2 imm =
     and_then (lookup OPCODES instr) (\<lambda>opcode.
     and_then (lookup FUNCT3 instr) (\<lambda>funct3.
       let imm_12 = drop_bit 12 imm AND 0x1;
           imm_11 = drop_bit 11 imm AND 0x1;
           imm_10_5 = drop_bit 5 imm AND 0x3F;
           imm_4_1 = drop_bit 1 imm AND 0xF
       in Inr (push_bit 31 imm_12 OR push_bit 25 imm_10_5 OR push_bit 20 rs2
               OR push_bit 15 rs1 OR push_bit 12 funct3 OR push_bit 8 imm_4_1
               OR push_bit 7 imm_11 OR opcode)))"

definition encode_u_type :: "string \<Rightarrow> int \<Rightarrow> int \<Rightarrow> error + int" where
  "encode_u_type instr rd imm =
     and_then (lookup OPCODES instr) (\<lambda>opcode.
       Inr (push_bit 12 (imm AND 0xFFFFF) OR push_bit 7 rd OR opcode))"

definition encode_j_type :: "string \<Rightarrow> int \<Rightarrow> int \<Rightarrow> error + int" where
  "encode_j_type instr rd imm =
     and_then (lookup OPCODES instr) (\<lambda>opcode.
       let imm_20 = drop_bit 20 imm AND 0x1;
           imm_19_12 = drop_bit 12 imm AND 0xFF;
           imm_11 = drop_bit 11 imm AND 0x1;
           imm_10_1 = drop_bit 1 imm AND 0x3FF
       in Inr (push_bit 31 imm_20 OR push_bit 21 imm_10_1 OR push_bit 20 imm_11
               OR push_bit 12 imm_19_12 OR push_bit 7 rd OR opcode))"

definition encode_crypto :: "string \<Rightarrow> int \<Rightarrow> int \<Rightarrow> int \<Rightarrow> error + int" where
  "encode_crypto instr rd rs1 rs2 =
     and_then (lookup OPCODES instr) (\<lambda>opcode.
     and_then (lookup FUNCT3 instr) (\<lambda>funct3.
     and_then (lookup FUNCT7 instr) (\<lambda>funct7.
       Inr (push_bit 25 funct7 OR push_bit 20 rs2 OR push_bit 15 rs1 OR push_bit 12 funct3
            OR push_bit 7 rd OR opcode))))"

subsection \<open>The assembler object\<close>

text \<open>
  An entry of \<^verbatim>\<open>self.errors\<close> is the string
  \<^verbatim>\<open>f"Line {line_num}: {e} - '{line}'"\<close>; it is kept here as the three values it is
  formatted from.
\<close>

record diagnostic =
  diag_line :: nat
  diag_error :: error
  diag_text :: string

record assembler =
  labels :: "string \<rightharpoonup> int"
  instructions :: "(int \<times> string \<times> nat) list"
  machine_code :: "int list"
  current_address :: int
  errors :: "diagnostic list"

text \<open>\<^verbatim>\<open>__init__\<close>\<close>

definition new_assembler :: assembler where
  "new_assembler =
     \<lparr>labels = Map.empty, instructions = [], machine_code = [], current_address = 0,
      errors = []\<rparr>"

subsection \<open>First pass\<close>

text \<open>
  \<^verbatim>\<open>re.sub(r'[#;].*', '', line)\<close>: from each \<^verbatim>\<open>#\<close> or \<^verbatim>\<open>;\<close> up to the end of its line
  (the dot does not match a line feed). The flag says that a comment is being skipped.
\<close>

fun sub_comment :: "bool \<Rightarrow> string \<Rightarrow> string" where
  "sub_comment skipping [] = []"
| "sub_comment skipping (c # cs) =
     (if skipping then (if c = CHR 0x0A then c # sub_comment False cs else sub_comment True cs)
      else if c = CHR ''#'' \<or> c = CHR '';'' then sub_comment True cs
      else c # sub_comment False cs)"

text \<open>The body of the loop of \<^verbatim>\<open>first_pass\<close>, for one numbered line.\<close>

definition first_pass_line :: "assembler \<Rightarrow> nat \<Rightarrow> string \<Rightarrow> assembler" where
  "first_pass_line st line_num line0 =
     (let line = strip (sub_comment False line0)
      in if line = [] then st
         else
           let has_label = (CHR '':'' \<in> set line);
               st1 = (if has_label
                      then st\<lparr>labels := (labels st)
                                 (strip (takeWhile (\<lambda>c. c \<noteq> CHR '':'') line) \<mapsto> current_address st)\<rparr>
                      else st);
               line1 = (if has_label then strip (drop 1 (dropWhile (\<lambda>c. c \<noteq> CHR '':'') line))
                        else line)
           in if line1 \<noteq> []
              then st1\<lparr>instructions := instructions st1 @ [(current_address st1, line1, line_num)],
                       current_address := current_address st1 + 4\<rparr>
              else st1)"

fun first_pass_loop :: "assembler \<Rightarrow> nat \<Rightarrow> string list \<Rightarrow> assembler" where
  "first_pass_loop st line_num [] = st"
| "first_pass_loop st line_num (line # rest) =
     first_pass_loop (first_pass_line st line_num line) (Suc line_num) rest"

definition first_pass :: "assembler \<Rightarrow> string list \<Rightarrow> assembler" where
  "first_pass st lines = first_pass_loop (st\<lparr>current_address := 0\<rparr>) 1 lines"

subsection \<open>Second pass\<close>

text \<open>\<^verbatim>\<open>line.replace(',', ' ').split()\<close>\<close>

definition parts_of :: "string \<Rightarrow> string list" where
  "parts_of line = split_ws (commas_to_blanks line)"

text \<open>\<^verbatim>\<open>self.parse_register(parts[i])\<close>\<close>

definition register_at :: "string list \<Rightarrow> nat \<Rightarrow> error + int" where
  "register_at parts i = and_then (item parts i) parse_register"

text \<open>
  The target of a branch or jump: the label's address minus the current address when
  the operand is a key of the label table, its value as a literal otherwise.
\<close>

definition target_offset :: "(string \<rightharpoonup> int) \<Rightarrow> string \<Rightarrow> int \<Rightarrow> nat \<Rightarrow> error + int" where
  "target_offset lbls operand current_addr bits =
     (case lbls operand of
        Some a \<Rightarrow> Inr (a - current_addr)
      | None \<Rightarrow> parse_immediate operand bits True)"

definition assemble_instruction :: "(string \<rightharpoonup> int) \<Rightarrow> string \<Rightarrow> int \<Rightarrow> error + int" where
  "assemble_instruction lbls line current_addr =
     (let parts = parts_of line
      in and_then (item parts 0) (\<lambda>p0.
         let instr = lower p0
         in if instr = ''nop'' then encode_i_type ''addi'' 0 0 0
            else if instr = ''li'' then
              and_then (register_at parts 1) (\<lambda>rd.
              and_then (item parts 2) (\<lambda>p2.
              and_then (parse_immediate p2 12 True) (\<lambda>imm.
                encode_i_type ''addi'' rd 0 imm)))
            else if instr = ''mv'' then
              and_then (register_at parts 1) (\<lambda>rd.
              and_then (register_at parts 2) (\<lambda>rs.
                encode_i_type ''addi'' rd rs 0))
            else if instr = ''j'' then
              and_then (item parts 1) (\<lambda>p1.
              and_then (target_offset lbls p1 current_addr 21) (\<lambda>offset.
                encode_j_type ''jal'' 0 offset))
            else if instr \<in> set [''add'', ''sub'', ''and'', ''or'', ''xor'', ''sll'', ''srl'',
                                   ''sra'', ''slt'', ''sltu''] then
              and_then (register_at parts 1) (\<lambda>rd.
              and_then (register_at parts 2) (\<lambda>rs1.
              and_then (register_at parts 3) (\<lambda>rs2.
                encode_r_type instr rd rs1 rs2)))
            else if instr \<in> set [''addi'', ''andi'', ''ori'', ''xori'', ''slti'', ''sltiu''] then
              and_then (register_at parts 1) (\<lambda>rd.
              and_then (register_at parts 2) (\<lambda>rs1.
              and_then (item parts 3) (\<lambda>p3.
              and_then (parse_immediate p3 12 True) (\<lambda>imm.
                encode_i_type instr rd rs1 imm))))
            else if instr \<in> set [''slli'', ''srli'', ''srai''] then
              and_then (register_at parts 1) (\<lambda>rd.
              and_then (register_at parts 2) (\<lambda>rs1.
              and_then (item parts 3) (\<lambda>p3.
              and_then (parse_immediate p3 5 False) (\<lambda>shamt.
                encode_i_type instr rd rs1 shamt))))
            else if instr \<in> set [''lw'', ''lh'', ''lb'', ''lhu'', ''lbu''] then
              and_then (register_at parts 1) (\<lambda>rd.
              and_then (item parts 2) (\<lambda>p2.
              and_then (parse_memory_operand p2) (\<lambda>(offset, base).
                encode_i_type instr rd base offset)))
            else if instr \<in> set [''sw'', ''sh'', ''sb''] then
              and_then (register_at parts 1) (\<lambda>rs2.
              and_then (item parts 2) (\<lambda>p2.
              and_then (parse_memory_operand p2) (\<lambda>(offset, base).
                encode_s_type instr rs2 base offset)))
            else if instr \<in> set [''beq'', ''bne'', ''blt'', ''bge'', ''bltu'', ''bgeu''] then
              and_then (register_at parts 1) (\<lambda>rs1.
              and_then (register_at parts 2) (\<lambda>rs2.
              and_then (item parts 3) (\<lambda>p3.
              and_then (target_offset lbls p3 current_addr 13) (\<lambda>offset.
                encode_b_type instr rs1 rs2 offset))))
            else if instr = ''jal'' then
              and_then (register_at parts 1) (\<lambda>rd.
              and_then (item parts 2) (\<lambda>p2.
              and_then (target_offset lbls p2 current_addr 21) (\<lambda>offset.
                encode_j_type instr rd offset)))
            else if instr = ''jalr'' then
              and_then (register_at parts 1) (\<lambda>rd.
              and_then (item parts 2) (\<lambda>p2.
              and_then (if CHR ''('' \<in> set p2 then parse_memory_operand p2
                        else and_then (parse_register p2) (\<lambda>rs1.
                             and_then (if length parts > 3
                                       then parse_immediate (parts ! 3) 12 True
                                       else Inr 0) (\<lambda>offset.
                               Inr (offset, rs1)))) (\<lambda>(offset, rs1).
                encode_i_type instr rd rs1 offset)))
            else if instr = ''lui'' \<or> instr = ''auipc'' then
              and_then (register_at parts 1) (\<lambda>rd.
              and_then (item parts 2) (\<lambda>p2.
              and_then (parse_immediate p2 20 False) (\<lambda>imm.
                encode_u_type instr rd imm)))
            else if instr \<in> set [''halt'', ''ecall''] then Inr 0x00000073
            else if instr = ''rng'' then
              and_then (register_at parts 1) (\<lambda>rd. encode_crypto instr rd 0 0)
            else if instr = ''rotl'' \<or> instr = ''rotr'' then
              and_then (register_at parts 1) (\<lambda>rd.
              and_then (register_at parts 2) (\<lambda>rs1.
              and_then (register_at parts 3) (\<lambda>rs2.
                encode_crypto instr rd rs1 rs2)))
            else Inl (UnknownInstruction instr)))"

text \<open>
  The loop of \<^verbatim>\<open>second_pass\<close>: \<^verbatim>\<open>except Exception\<close> catches every error an
  instruction can raise and appends one entry to \<^verbatim>\<open>self.errors\<close>.
\<close>

definition second_pass_step :: "assembler \<Rightarrow> int \<times> string \<times> nat \<Rightarrow> assembler" where
  "second_pass_step st entry =
     (case entry of (addr, line, line_num) \<Rightarrow>
        (case assemble_instruction (labels st) line addr of
           Inr code \<Rightarrow> st\<lparr>machine_code := machine_code st @ [code]\<rparr>
         | Inl e \<Rightarrow> st\<lparr>errors := errors st
                        @ [\<lparr>diag_line = line_num, diag_error = e, diag_text = line\<rparr>]\<rparr>))"

fun second_pass_loop :: "assembler \<Rightarrow> (int \<times> string \<times> nat) list \<Rightarrow> assembler" where
  "second_pass_loop st [] = st"
| "second_pass_loop st (entry # rest) = second_pass_loop (second_pass_step st entry) rest"

definition second_pass :: "assembler \<Rightarrow> assembler" where
  "second_pass st = second_pass_loop st (instructions st)"

subsection \<open>The main entry\<close>

text \<open>
  \<^verbatim>\<open>assemble\<close> either returns \<^verbatim>\<open>self.machine_code\<close> or, when \<^verbatim>\<open>self.errors\<close> is not
  empty, prints the errors and calls \<^verbatim>\<open>sys.exit(1)\<close>. \<open>run\<close> is the object after the
  two passes.
\<close>

datatype outcome = Returned "int list" | SysExit int "diagnostic list"

definition run :: "string \<Rightarrow> assembler" where
  "run source = second_pass (first_pass new_assembler (split_on CHR 0x0A source))"

definition assemble :: "string \<Rightarrow> outcome" where
  "assemble source =
     (let st = run source
      in if errors st \<noteq> [] then SysExit 1 (errors st) else Returned (machine_code st))"

subsection \<open>Output: the Verilog initialisation\<close>

text \<open>\<^verbatim>\<open>str(n)\<close> and the upper-case hexadecimal digits of a natural number.\<close>

fun str_nat :: "nat \<Rightarrow> string" where
  "str_nat n =
     (if n < 10 then [''0123456789'' ! n] else str_nat (n div 10) @ [''0123456789'' ! (n mod 10)])"

fun hex_nat :: "nat \<Rightarrow> string" where
  "hex_nat n =
     (if n < 16 then [''0123456789ABCDEF'' ! n]
      else hex_nat (n div 16) @ [''0123456789ABCDEF'' ! (n mod 16)])"

text \<open>
  The format \<^verbatim>\<open>{x:0wX}\<close>: upper-case hexadecimal, filled with zeros after the sign up
  to the width \<open>w\<close>.
\<close>

definition zero_fill :: "nat \<Rightarrow> string \<Rightarrow> string" where
  "zero_fill w s = replicate (w - length s) CHR ''0'' @ s"

definition format_X :: "nat \<Rightarrow> int \<Rightarrow> string" where
  "format_X w x =
     (if x < 0 then CHR ''-'' # zero_fill (w - 1) (hex_nat (nat (- x)))
      else zero_fill w (hex_nat (nat x)))"

definition verilog_header :: "string list" where
  "verilog_header =
     [''// ============================================================================='',
      ''// RISC-V Instruction Memory - Auto-generated by riscv_assembler.py'',
      ''// ============================================================================='',
      [],
      ''    initial begin'']"

text \<open>The line of one machine word, paired by \<^verbatim>\<open>zip\<close> with its instruction.\<close>

definition verilog_entry :: "nat \<Rightarrow> int \<times> (int \<times> string \<times> nat) \<Rightarrow> string" where
  "verilog_entry i e =
     (case e of (code, (addr, asm, line_num)) \<Rightarrow>
        ''        I_MEM_BLOCK['' @ str_nat i @ '']  = 32'' @ [CHR 0x27] @ ''h'' @ format_X 8 code
        @ '';  // 0x'' @ format_X 2 addr @ '': '' @ asm)"

definition verilog_filler :: "nat \<Rightarrow> string" where
  "verilog_filler i =
     ''        I_MEM_BLOCK['' @ str_nat i @ ''] = 32'' @ [CHR 0x27] @ ''h00000013;  // nop''"

definition to_verilog_lines :: "assembler \<Rightarrow> string list" where
  "to_verilog_lines st =
     (let n = length (machine_code st);
          entries = zip (machine_code st) (instructions st)
      in verilog_header
         @ map (\<lambda>i. verilog_entry i (entries ! i)) [0 ..< length entries]
         @ [[], ''        // Fill remaining with NOPs'']
         @ map verilog_filler [n ..< min (n + 5) 64]
         @ [''    end''])"

text \<open>\<^verbatim>\<open>'\n'.join(lines)\<close>\<close>

fun join_lines :: "string list \<Rightarrow> string" where
  "join_lines [] = []"
| "join_lines [l] = l"
| "join_lines (l # ls) = l @ [CHR 0x0A] @ join_lines ls"

definition to_verilog :: "assembler \<Rightarrow> string" where
  "to_verilog st = join_lines (to_verilog_lines st)"

subsection \<open>Notions used in the statements\<close>

text \<open>A 32-bit unsigned value, and a register number.\<close>

definition is_word32 :: "int \<Rightarrow> bool" where
  "is_word32 w \<longleftrightarrow> 0 \<le> w \<and> w < 2 ^ 32"

definition is_reg :: "int \<Rightarrow> bool" where
  "is_reg r \<longleftrightarrow> 0 \<le> r \<and> r < 2 ^ 5"

text \<open>
  What the second pass makes of a list of pending instructions: the words of those that
  encode, and the diagnostics of those that fail, both in the order of the list.
\<close>

definition encoded_words :: "(string \<rightharpoonup> int) \<Rightarrow> (int \<times> string \<times> nat) list \<Rightarrow> int list" where
  "encoded_words lbls entries =
     concat (map (\<lambda>(addr, line, line_num).
       case assemble_instruction lbls line addr of Inr code \<Rightarrow> [code] | Inl e \<Rightarrow> []) entries)"

definition diagnostics_of ::
  "(string \<rightharpoonup> int) \<Rightarrow> (int \<times> string \<times> nat) list \<Rightarrow> diagnostic list" where
  "diagnostics_of lbls entries =
     concat (map (\<lambda>(addr, line, line_num).
       case assemble_instruction lbls line addr of
         Inr code \<Rightarrow> []
       | Inl e \<Rightarrow> [\<lparr>diag_line = line_num, diag_error = e, diag_text = line\<rparr>]) entries)"

text \<open>The object after the first pass over a source text.\<close>

definition pending :: "string \<Rightarrow> assembler" where
  "pending source = first_pass new_assembler (split_on CHR 0x0A source)"




text \<open>An operand as it is written: not empty, without white space or comma.\<close>

definition is_token :: "string \<Rightarrow> bool" where
  "is_token t \<longleftrightarrow> t \<noteq> [] \<and> (\<forall>c \<in> set t. \<not> is_space c \<and> c \<noteq> CHR '','')"

text \<open>
  What the first pass takes from one source line: the label it registers, if any, and
  the instruction text it leaves pending, if any; and the pending texts of a list of
  lines, each with its line number.
\<close>

definition line_label :: "string \<Rightarrow> string option" where
  "line_label line0 =
     (let line = strip (sub_comment False line0)
      in if line \<noteq> [] \<and> CHR '':'' \<in> set line
         then Some (strip (takeWhile (\<lambda>c. c \<noteq> CHR '':'') line)) else None)"

definition line_instruction :: "string \<Rightarrow> string option" where
  "line_instruction line0 =
     (let line = strip (sub_comment False line0);
          line1 = (if CHR '':'' \<in> set line
                   then strip (drop 1 (dropWhile (\<lambda>c. c \<noteq> CHR '':'') line)) else line)
      in if line1 \<noteq> [] then Some line1 else None)"

fun pending_texts :: "nat \<Rightarrow> string list \<Rightarrow> (string \<times> nat) list" where
  "pending_texts n [] = []"
| "pending_texts n (x # xs) =
     (case line_instruction x of None \<Rightarrow> [] | Some t \<Rightarrow> [(t, n)]) @ pending_texts (Suc n) xs"

text \<open>
  The digits of a literal and the number they write in a base: the value of a digit
  character, and the value of a string of digits read from the left.
\<close>

definition is_hex_digit :: "char \<Rightarrow> bool" where
  "is_hex_digit c \<longleftrightarrow> c \<in> set ''0123456789abcdefABCDEF''"

definition is_bin_digit :: "char \<Rightarrow> bool" where
  "is_bin_digit c \<longleftrightarrow> c \<in> set ''01''"

definition digit_of :: "char \<Rightarrow> nat" where
  "digit_of c =
     (if c \<in> set ''0123456789'' then of_char c - 48
      else if c \<in> set ''abcdef'' then of_char c - 87
      else of_char c - 55)"

definition number_of :: "nat \<Rightarrow> string \<Rightarrow> nat" where
  "number_of base ds = foldl (\<lambda>a c. a * base + digit_of c) 0 ds"

section \<open>Properties\<close>

subsection \<open>Every encoded word is a 32-bit value\<close>

lemma word32_or: "is_word32 a \<Longrightarrow> is_word32 b \<Longrightarrow> is_word32 (a OR b)"
  using OR_upper [of a 32 b] by (simp add: is_word32_def)

lemma word32_field:
  assumes "0 \<le> x" "x < 2 ^ k" "n + k \<le> 32"
  shows "is_word32 (push_bit n x)"
proof -
  have "x * 2 ^ n < 2 ^ k * (2 ^ n :: int)"
    using assms(2) by simp
  also have "(2 ^ k * 2 ^ n :: int) = 2 ^ (k + n)"
    by (simp only: power_add)
  also have "(2::int) ^ (k + n) \<le> 2 ^ 32"
    using assms(3) by (intro power_increasing) simp_all
  finally have "x * 2 ^ n < (2 ^ 32 :: int)" .
  moreover have "0 \<le> x * (2 ^ n :: int)"
    using assms(1) by simp
  ultimately show ?thesis
    unfolding is_word32_def push_bit_eq_mult by (rule conjI [rotated])
qed

lemma word32_mask_field:
  assumes "0 \<le> m" "m < 2 ^ k" "n + k \<le> 32"
  shows "is_word32 (push_bit n (x AND m))"
  by (rule word32_field [OF _ _ assms(3)]) (use assms in simp_all)

lemma table_bound:
  assumes "lookup tbl k = Inr v" "\<forall>(k, v) \<in> set tbl. 0 \<le> v \<and> v < b"
  shows "0 \<le> v \<and> v < b"
proof -
  from assms(1) have "map_of tbl k = Some v"
    by (simp add: lookup_def split: option.splits)
  then have "(k, v) \<in> set tbl" by (rule map_of_SomeD)
  with assms(2) show ?thesis by blast
qed

lemma opcode_bound: "lookup OPCODES k = Inr v \<Longrightarrow> 0 \<le> v \<and> v < 2 ^ 7"
  by (erule table_bound) (simp add: OPCODES_def)

lemma funct3_bound: "lookup FUNCT3 k = Inr v \<Longrightarrow> 0 \<le> v \<and> v < 2 ^ 3"
  by (erule table_bound) (simp add: FUNCT3_def)

lemma funct7_bound: "lookup FUNCT7 k = Inr v \<Longrightarrow> 0 \<le> v \<and> v < 2 ^ 7"
  by (erule table_bound) (simp add: FUNCT7_def)

lemma register_bound:
  assumes "parse_register s = Inr n"
  shows "0 \<le> n \<and> n < 2 ^ 5"
proof -
  from assms obtain r where "map_of REGISTERS r = Some n"
    by (auto simp: parse_register_def Let_def split: option.splits)
  then have "(r, n) \<in> set REGISTERS" by (rule map_of_SomeD)
  moreover have "\<forall>(k, v) \<in> set REGISTERS. 0 \<le> v \<and> v < 2 ^ 5"
    by (simp add: REGISTERS_def)
  ultimately show ?thesis by blast
qed

lemma and_then_Inr: "and_then m f = Inr w \<longleftrightarrow> (\<exists>v. m = Inr v \<and> f v = Inr w)"
  by (cases m) (simp_all add: and_then_def)

lemma encode_r_type_word32:
  assumes "encode_r_type i rd rs1 rs2 = Inr w" "is_reg rd" "is_reg rs1" "is_reg rs2"
  shows "is_word32 w"
proof -
  from assms(1) obtain opc f3 f7 where
    t: "lookup OPCODES i = Inr opc" "lookup FUNCT3 i = Inr f3" "lookup FUNCT7 i = Inr f7"
    and w: "w = push_bit 25 f7 OR push_bit 20 rs2 OR push_bit 15 rs1 OR push_bit 12 f3
            OR push_bit 7 rd OR opc"
    by (auto simp: encode_r_type_def and_then_Inr)
  have "is_word32 (push_bit 25 f7)" using funct7_bound [OF t(3)] by (intro word32_field [where k = 7]) simp_all
  moreover have "is_word32 (push_bit 20 rs2)" using assms(4) by (intro word32_field [where k = 5]) (simp_all add: is_reg_def)
  moreover have "is_word32 (push_bit 15 rs1)" using assms(3) by (intro word32_field [where k = 5]) (simp_all add: is_reg_def)
  moreover have "is_word32 (push_bit 12 f3)" using funct3_bound [OF t(2)] by (intro word32_field [where k = 3]) simp_all
  moreover have "is_word32 (push_bit 7 rd)" using assms(2) by (intro word32_field [where k = 5]) (simp_all add: is_reg_def)
  moreover have "is_word32 opc" using opcode_bound [OF t(1)] by (simp add: is_word32_def)
  ultimately show ?thesis unfolding w by (intro word32_or)
qed



lemma word32_reg: "is_reg r \<Longrightarrow> n \<le> 27 \<Longrightarrow> is_word32 (push_bit n r)"
  by (rule word32_field [where k = 5]) (simp_all add: is_reg_def)

lemma word32_funct3: "lookup FUNCT3 i = Inr v \<Longrightarrow> is_word32 (push_bit 12 v)"
  using funct3_bound [of i v] by (intro word32_field [where k = 3]) simp_all

lemma word32_funct7: "lookup FUNCT7 i = Inr v \<Longrightarrow> is_word32 (push_bit 25 v)"
  using funct7_bound [of i v] by (intro word32_field [where k = 7]) simp_all

lemma word32_opcode: "lookup OPCODES i = Inr v \<Longrightarrow> is_word32 v"
  using opcode_bound [of i v] by (simp add: is_word32_def)

lemma encode_i_type_word32:
  assumes "encode_i_type i rd rs1 imm = Inr w" "is_reg rd" "is_reg rs1"
  shows "is_word32 w"
proof -
  from assms(1) obtain opc f3 imm' where
    t: "lookup OPCODES i = Inr opc" "lookup FUNCT3 i = Inr f3"
    and w: "w = push_bit 20 (imm' AND 0xFFF) OR push_bit 15 rs1 OR push_bit 12 f3
            OR push_bit 7 rd OR opc"
    by (auto simp: encode_i_type_def and_then_Inr)
  have "is_word32 (push_bit 20 (imm' AND 0xFFF))"
    by (rule word32_mask_field [where k = 12]) simp_all
  moreover have "is_word32 (push_bit 15 rs1)" using assms(3) by (rule word32_reg) simp
  moreover have "is_word32 (push_bit 12 f3)" using t(2) by (rule word32_funct3)
  moreover have "is_word32 (push_bit 7 rd)" using assms(2) by (rule word32_reg) simp
  moreover have "is_word32 opc" using t(1) by (rule word32_opcode)
  ultimately show ?thesis unfolding w by (intro word32_or)
qed

lemma encode_s_type_word32:
  assumes "encode_s_type i rs2 rs1 imm = Inr w" "is_reg rs2" "is_reg rs1"
  shows "is_word32 w"
proof -
  from assms(1) obtain opc f3 where
    t: "lookup OPCODES i = Inr opc" "lookup FUNCT3 i = Inr f3"
    and w: "w = push_bit 25 (drop_bit 5 imm AND 0x7F) OR push_bit 20 rs2 OR push_bit 15 rs1
               OR push_bit 12 f3 OR push_bit 7 (imm AND 0x1F) OR opc"
    by (auto simp: encode_s_type_def and_then_Inr Let_def)
  have "is_word32 (push_bit 25 (drop_bit 5 imm AND 0x7F))"
    by (rule word32_mask_field [where k = 7]) simp_all
  moreover have "is_word32 (push_bit 20 rs2)" using assms(2) by (rule word32_reg) simp
  moreover have "is_word32 (push_bit 15 rs1)" using assms(3) by (rule word32_reg) simp
  moreover have "is_word32 (push_bit 12 f3)" using t(2) by (rule word32_funct3)
  moreover have "is_word32 (push_bit 7 (imm AND 0x1F))"
    by (rule word32_mask_field [where k = 5]) simp_all
  moreover have "is_word32 opc" using t(1) by (rule word32_opcode)
  ultimately show ?thesis unfolding w by (intro word32_or)
qed

lemma encode_b_type_word32:
  assumes "encode_b_type i rs1 rs2 imm = Inr w" "is_reg rs1" "is_reg rs2"
  shows "is_word32 w"
proof -
  from assms(1) obtain opc f3 where
    t: "lookup OPCODES i = Inr opc" "lookup FUNCT3 i = Inr f3"
    and w: "w = push_bit 31 (drop_bit 12 imm AND 0x1) OR push_bit 25 (drop_bit 5 imm AND 0x3F)
               OR push_bit 20 rs2 OR push_bit 15 rs1 OR push_bit 12 f3
               OR push_bit 8 (drop_bit 1 imm AND 0xF) OR push_bit 7 (drop_bit 11 imm AND 0x1) OR opc"
    by (auto simp: encode_b_type_def and_then_Inr Let_def)
  have "is_word32 (push_bit 31 (drop_bit 12 imm AND 0x1))"
    by (rule word32_mask_field [where k = 1]) simp_all
  moreover have "is_word32 (push_bit 25 (drop_bit 5 imm AND 0x3F))"
    by (rule word32_mask_field [where k = 6]) simp_all
  moreover have "is_word32 (push_bit 20 rs2)" using assms(3) by (rule word32_reg) simp
  moreover have "is_word32 (push_bit 15 rs1)" using assms(2) by (rule word32_reg) simp
  moreover have "is_word32 (push_bit 12 f3)" using t(2) by (rule word32_funct3)
  moreover have "is_word32 (push_bit 8 (drop_bit 1 imm AND 0xF))"
    by (rule word32_mask_field [where k = 4]) simp_all
  moreover have "is_word32 (push_bit 7 (drop_bit 11 imm AND 0x1))"
    by (rule word32_mask_field [where k = 1]) simp_all
  moreover have "is_word32 opc" using t(1) by (rule word32_opcode)
  ultimately show ?thesis unfolding w by (intro word32_or)
qed

lemma encode_u_type_word32:
  assumes "encode_u_type i rd imm = Inr w" "is_reg rd"
  shows "is_word32 w"
proof -
  from assms(1) obtain opc where
    t: "lookup OPCODES i = Inr opc"
    and w: "w = push_bit 12 (imm AND 0xFFFFF) OR push_bit 7 rd OR opc"
    by (auto simp: encode_u_type_def and_then_Inr)
  have "is_word32 (push_bit 12 (imm AND 0xFFFFF))"
    by (rule word32_mask_field [where k = 20]) simp_all
  moreover have "is_word32 (push_bit 7 rd)" using assms(2) by (rule word32_reg) simp
  moreover have "is_word32 opc" using t(1) by (rule word32_opcode)
  ultimately show ?thesis unfolding w by (intro word32_or)
qed

lemma encode_j_type_word32:
  assumes "encode_j_type i rd imm = Inr w" "is_reg rd"
  shows "is_word32 w"
proof -
  from assms(1) obtain opc where
    t: "lookup OPCODES i = Inr opc"
    and w: "w = push_bit 31 (drop_bit 20 imm AND 0x1) OR push_bit 21 (drop_bit 1 imm AND 0x3FF)
               OR push_bit 20 (drop_bit 11 imm AND 0x1) OR push_bit 12 (drop_bit 12 imm AND 0xFF)
               OR push_bit 7 rd OR opc"
    by (auto simp: encode_j_type_def and_then_Inr Let_def)
  have "is_word32 (push_bit 31 (drop_bit 20 imm AND 0x1))"
    by (rule word32_mask_field [where k = 1]) simp_all
  moreover have "is_word32 (push_bit 21 (drop_bit 1 imm AND 0x3FF))"
    by (rule word32_mask_field [where k = 10]) simp_all
  moreover have "is_word32 (push_bit 20 (drop_bit 11 imm AND 0x1))"
    by (rule word32_mask_field [where k = 1]) simp_all
  moreover have "is_word32 (push_bit 12 (drop_bit 12 imm AND 0xFF))"
    by (rule word32_mask_field [where k = 8]) simp_all
  moreover have "is_word32 (push_bit 7 rd)" using assms(2) by (rule word32_reg) simp
  moreover have "is_word32 opc" using t(1) by (rule word32_opcode)
  ultimately show ?thesis unfolding w by (intro word32_or)
qed

lemma encode_crypto_word32:
  assumes "encode_crypto i rd rs1 rs2 = Inr w" "is_reg rd" "is_reg rs1" "is_reg rs2"
  shows "is_word32 w"
  using assms encode_r_type_word32 [of i rd rs1 rs2 w]
  by (simp add: encode_crypto_def encode_r_type_def)

lemma register_at_is_reg: "register_at parts i = Inr n \<Longrightarrow> is_reg n"
  using register_bound by (auto simp: register_at_def and_then_Inr is_reg_def)

lemma parse_register_is_reg: "parse_register s = Inr n \<Longrightarrow> is_reg n"
  using register_bound by (auto simp: is_reg_def)

lemma parse_memory_operand_is_reg: "parse_memory_operand s = Inr (off, r) \<Longrightarrow> is_reg r"
  by (auto simp: parse_memory_operand_def and_then_Inr parse_register_is_reg split: option.splits)

lemma is_reg_0: "is_reg 0"
  by (simp add: is_reg_def)

lemma and_thenE:
  assumes "and_then m f = Inr w"
  obtains v where "m = Inr v" "f v = Inr w"
  using assms by (auto simp: and_then_Inr)

lemma jalr_operand_is_reg:
  assumes "(if c then parse_memory_operand p
            else and_then (parse_register p) (\<lambda>rs1. and_then m (\<lambda>offset. Inr (offset, rs1))))
           = Inr (off, r)"
  shows "is_reg r"
  using assms
  by (auto simp: and_then_Inr split: if_splits
      dest: parse_register_is_reg parse_memory_operand_is_reg)

lemma assemble_instruction_word32:
  assumes "assemble_instruction lbls line addr = Inr w"
  shows "is_word32 w"
  using assms unfolding assemble_instruction_def Let_def
  apply -
  apply (erule and_thenE)
  apply (simp only: split: if_splits)
  by (auto simp: and_then_Inr is_reg_0 is_word32_def [of "0x73"]
      intro: encode_r_type_word32 encode_i_type_word32 encode_s_type_word32
        encode_b_type_word32 encode_u_type_word32 encode_j_type_word32 encode_crypto_word32
      dest: register_at_is_reg parse_register_is_reg parse_memory_operand_is_reg
        jalr_operand_is_reg)

subsection \<open>The second pass, line by line\<close>

lemma second_pass_step_fields:
  "labels (second_pass_step st entry) = labels st"
  "instructions (second_pass_step st entry) = instructions st"
  "current_address (second_pass_step st entry) = current_address st"
  by (auto simp: second_pass_step_def split: prod.splits sum.splits)

lemma second_pass_step_code:
  "machine_code (second_pass_step st entry) = machine_code st @ encoded_words (labels st) [entry]"
  by (auto simp: second_pass_step_def encoded_words_def split: prod.splits sum.splits)

lemma second_pass_step_errors:
  "errors (second_pass_step st entry) = errors st @ diagnostics_of (labels st) [entry]"
  by (auto simp: second_pass_step_def diagnostics_of_def split: prod.splits sum.splits)

lemma encoded_words_Cons:
  "encoded_words lbls (e # es) = encoded_words lbls [e] @ encoded_words lbls es"
  by (simp add: encoded_words_def)

lemma diagnostics_of_Cons:
  "diagnostics_of lbls (e # es) = diagnostics_of lbls [e] @ diagnostics_of lbls es"
  by (simp add: diagnostics_of_def)

lemma encoded_words_append:
  "encoded_words lbls (xs @ ys) = encoded_words lbls xs @ encoded_words lbls ys"
  by (simp add: encoded_words_def)

lemma diagnostics_of_append:
  "diagnostics_of lbls (xs @ ys) = diagnostics_of lbls xs @ diagnostics_of lbls ys"
  by (simp add: diagnostics_of_def)

lemma second_pass_loop_fields:
  "labels (second_pass_loop st es) = labels st"
  "instructions (second_pass_loop st es) = instructions st"
  "current_address (second_pass_loop st es) = current_address st"
  by (induction es arbitrary: st; simp add: second_pass_step_fields)+

lemma second_pass_loop_code:
  "machine_code (second_pass_loop st es) = machine_code st @ encoded_words (labels st) es"
proof (induction es arbitrary: st)
  case Nil
  show ?case by (simp add: encoded_words_def)
next
  case (Cons e es)
  show ?case
    by (simp add: Cons.IH second_pass_step_fields second_pass_step_code
        encoded_words_Cons [of _ e es])
qed

lemma second_pass_loop_errors:
  "errors (second_pass_loop st es) = errors st @ diagnostics_of (labels st) es"
proof (induction es arbitrary: st)
  case Nil
  show ?case by (simp add: diagnostics_of_def)
next
  case (Cons e es)
  show ?case
    by (simp add: Cons.IH second_pass_step_fields second_pass_step_errors
        diagnostics_of_Cons [of _ e es])
qed

lemma words_plus_diagnostics:
  "length (encoded_words lbls es) + length (diagnostics_of lbls es) = length es"
  by (induction es) (auto simp: encoded_words_def diagnostics_of_def split: sum.splits)

lemma encoded_words_word32: "w \<in> set (encoded_words lbls es) \<Longrightarrow> is_word32 w"
  by (auto simp: encoded_words_def assemble_instruction_word32 split: sum.splits)

lemma encoded_words_fail: "assemble_instruction lbls l a = Inl e \<Longrightarrow> encoded_words lbls [(a, l, n)] = []"
  by (simp add: encoded_words_def)

lemma diagnostics_of_fail:
  "assemble_instruction lbls l a = Inl e \<Longrightarrow>
   diagnostics_of lbls [(a, l, n)] = [\<lparr>diag_line = n, diag_error = e, diag_text = l\<rparr>]"
  by (simp add: diagnostics_of_def)

lemma first_pass_line_code:
  "machine_code (first_pass_line st n x) = machine_code st"
  "errors (first_pass_line st n x) = errors st"
  by (simp_all add: first_pass_line_def Let_def)

lemma first_pass_loop_code:
  "machine_code (first_pass_loop st n xs) = machine_code st"
  "errors (first_pass_loop st n xs) = errors st"
  by (induction xs arbitrary: st n; simp add: first_pass_line_code)+

lemma first_pass_code:
  "machine_code (first_pass new_assembler xs) = []"
  "errors (first_pass new_assembler xs) = []"
  by (simp_all add: first_pass_def first_pass_loop_code new_assembler_def)

lemma run_code:
  "machine_code (run source) = encoded_words (labels (pending source)) (instructions (pending source))"
  by (simp add: run_def second_pass_def second_pass_loop_code first_pass_code pending_def)

lemma run_errors:
  "errors (run source) = diagnostics_of (labels (pending source)) (instructions (pending source))"
  by (simp add: run_def second_pass_def second_pass_loop_errors first_pass_code pending_def)

lemma run_instructions: "instructions (run source) = instructions (pending source)"
  by (simp add: run_def second_pass_def second_pass_loop_fields pending_def)

subsection \<open>C1: what \<^verbatim>\<open>assemble\<close> gives back\<close>

text \<open>
  C1, as the code has it: for every source text, \<^verbatim>\<open>assemble\<close> returns the ordered
  sequence of machine words when no line fails, and otherwise leaves through
  \<^verbatim>\<open>sys.exit(1)\<close> after printing the ordered diagnostics. Every word is a 32-bit
  unsigned value. No error of a single line's encoding escapes: the second pass turns
  it into one diagnostic, so each pending instruction accounts for one word or one
  diagnostic.
\<close>

theorem assemble_outcome:
  "assemble source =
     (if errors (run source) = [] then Returned (machine_code (run source))
      else SysExit 1 (errors (run source)))
   \<and> (\<forall>w \<in> set (machine_code (run source)). is_word32 w)
   \<and> length (machine_code (run source)) + length (errors (run source))
       = length (instructions (run source))"
  by (simp add: assemble_def Let_def run_code run_errors run_instructions
      words_plus_diagnostics encoded_words_word32)

text \<open>The statement at the one-line program \<^verbatim>\<open>addi x5, x0, 7\<close>.\<close>

theorem assemble_outcome_witness:
  "assemble ''addi x5, x0, 7'' = Returned [0x00700293] \<and> is_word32 0x00700293"
proof -
  have c: "machine_code (run ''addi x5, x0, 7'') = [0x00700293]" by code_simp
  have e: "errors (run ''addi x5, x0, 7'') = []" by code_simp
  from assemble_outcome [of "''addi x5, x0, 7''"] show ?thesis
    unfolding c e by simp
qed

text \<open>
  C1 as stated fails: on a source with a failing line \<^verbatim>\<open>assemble\<close> does not return
  words and diagnostics, it exits with status 1.
\<close>

theorem assemble_exits_counterexample:
  "assemble ''addi x1, x0, 2048'' =
     SysExit 1 [\<lparr>diag_line = 1, diag_error = ImmediateOutOfRange 2048 (- 2048) 2047,
                 diag_text = ''addi x1, x0, 2048''\<rparr>]"
  by code_simp

subsection \<open>C6: the encoding of \<^verbatim>\<open>addi x5, x0, 7\<close>\<close>

text \<open>
  C6: the instruction \<^verbatim>\<open>addi x5, x0, 7\<close> encodes to the word \<^verbatim>\<open>0x00700293\<close>, whatever the
  label table and the address: the immediate 7 in bits 31:20, rs1 = 0, funct3 = 000,
  rd = 5 and the opcode 0010011.
\<close>

theorem addi_x5_x0_7:
  "assemble_instruction lbls ''addi x5, x0, 7'' addr = Inr 0x00700293
   \<and> (0x00700293 :: int) = push_bit 20 7 OR push_bit 15 0 OR push_bit 12 0 OR push_bit 7 5 OR 0x13
   \<and> encode_i_type ''addi'' 5 0 7 = Inr 0x00700293"
  by code_simp

subsection \<open>C2: a failing line does not stop the others\<close>

text \<open>
  C2: when the encoding of one pending instruction fails, the second pass appends exactly
  one diagnostic for it, with the line number and text of that instruction, between
  the diagnostics of the instructions before and after it; the machine words are those
  of the other instructions, in their order, the same as if the failing line were not
  there.
\<close>

theorem second_pass_isolates_failure:
  assumes "instructions st = pre @ (a, l, n) # post"
    and "assemble_instruction (labels st) l a = Inl e"
  shows "errors (second_pass st) =
           errors st @ diagnostics_of (labels st) pre
           @ [\<lparr>diag_line = n, diag_error = e, diag_text = l\<rparr>]
           @ diagnostics_of (labels st) post
       \<and> machine_code (second_pass st) =
           machine_code st @ encoded_words (labels st) pre @ encoded_words (labels st) post
       \<and> machine_code (second_pass st) = machine_code (second_pass (st\<lparr>instructions := pre @ post\<rparr>))"
proof -
  have split: "pre @ (a, l, n) # post = pre @ [(a, l, n)] @ post" by simp
  show ?thesis
    unfolding second_pass_def second_pass_loop_code second_pass_loop_errors assms(1) split
      encoded_words_append diagnostics_of_append
    using assms(2)
    by (simp add: encoded_words_fail diagnostics_of_fail encoded_words_append)
qed

text \<open>
  The five-line program with an unknown register on line 3: one diagnostic, for line 3,
  and the four words of the other lines in source order.
\<close>

theorem second_pass_isolates_failure_witness:
  "errors (run ''addi x1, x0, 1\<newline>addi x2, x0, 2\<newline>add x3, x1, x99\<newline>sub x4, x2, x1\<newline>halt'') =
     [\<lparr>diag_line = 3, diag_error = UnknownRegister ''x99'', diag_text = ''add x3, x1, x99''\<rparr>]
   \<and> machine_code (run ''addi x1, x0, 1\<newline>addi x2, x0, 2\<newline>add x3, x1, x99\<newline>sub x4, x2, x1\<newline>halt'') =
     [0x00100093, 0x00200113, 0x40110233, 0x00000073]"
proof -
  define src where "src = ''addi x1, x0, 1\<newline>addi x2, x0, 2\<newline>add x3, x1, x99\<newline>sub x4, x2, x1\<newline>halt''"
  define pre :: "(int \<times> string \<times> nat) list" where "pre = [(0, ''addi x1, x0, 1'', 1), (4, ''addi x2, x0, 2'', 2)]"
  define post :: "(int \<times> string \<times> nat) list" where "post = [(12, ''sub x4, x2, x1'', 4), (16, ''halt'', 5)]"
  have i: "instructions (pending src) = pre @ (8, ''add x3, x1, x99'', 3) # post"
    unfolding src_def pre_def post_def by code_simp
  have f: "assemble_instruction (labels (pending src)) ''add x3, x1, x99'' 8 = Inl (UnknownRegister ''x99'')"
    unfolding src_def by code_simp
  have e0: "errors (pending src) = []" "machine_code (pending src) = []"
    by (simp_all add: pending_def first_pass_code)
  have d: "diagnostics_of (labels (pending src)) pre = []" "diagnostics_of (labels (pending src)) post = []"
    unfolding src_def pre_def post_def by code_simp+
  have w: "encoded_words (labels (pending src)) pre = [0x00100093, 0x00200113]"
    "encoded_words (labels (pending src)) post = [0x40110233, 0x00000073]"
    unfolding src_def pre_def post_def by code_simp+
  have r: "run src = second_pass (pending src)"
    by (simp add: run_def pending_def)
  from second_pass_isolates_failure [OF i f]
  show ?thesis
    unfolding src_def [symmetric] r e0 d w by simp
qed

subsection \<open>Literals and their values\<close>

lemma strip_id:
  assumes "s \<noteq> []" "\<not> is_space (hd s)" "\<not> is_space (last s)"
  shows "strip s = s"
proof -
  from assms(1,2) have a: "dropWhile is_space s = s"
    by (cases s) simp_all
  from assms(1,3) have b: "dropWhile is_space (rev s) = rev s"
    by (cases "rev s") (simp_all add: last_rev [symmetric] hd_rev del: last_rev)
  show ?thesis by (simp add: strip_def a b)
qed

lemma digit_chars: "is_digit c \<Longrightarrow> \<not> is_space c \<and> c \<noteq> CHR '','' \<and> c \<noteq> CHR ''x'' \<and> c \<noteq> CHR ''X''
   \<and> c \<noteq> CHR ''b'' \<and> c \<noteq> CHR ''B'' \<and> c \<noteq> CHR ''('' \<and> c \<noteq> CHR ''-''"
  by (auto simp: is_digit_def is_space_def)

lemma word_chars: "is_word c \<Longrightarrow> \<not> is_space c \<and> c \<noteq> CHR '')''"
  by (auto simp: is_word_def is_space_def)

lemma special_chars:
  "\<not> is_space CHR ''(''" "\<not> is_space CHR '')''" "\<not> is_space CHR ''-''"
  "\<not> is_digit CHR ''(''" "\<not> is_word CHR '')''" "\<not> is_digit CHR ''-''"
  by (simp_all add: is_space_def is_digit_def is_word_def)

lemma takeWhile_run:
  assumes "\<forall>c \<in> set xs. P c" "\<not> P y"
  shows "takeWhile P (xs @ y # ys) = xs" "dropWhile P (xs @ y # ys) = y # ys"
  using assms by (simp_all add: takeWhile_append2 dropWhile_append2)

lemma immediate_literal_decimal:
  assumes "ds \<noteq> []" "\<forall>c \<in> set ds. is_digit c" "sg = [] \<or> sg = ''-''"
  shows "immediate_literal (remove_commas (strip (sg @ ds))) = py_int 10 (sg @ ds)"
proof -
  have ne: "sg @ ds \<noteq> []" using assms(1) by simp
  have h: "\<not> is_space (hd (sg @ ds))"
    using assms digit_chars [of "hd ds"] by (cases ds) (auto simp: special_chars)
  have l: "\<not> is_space (last (sg @ ds))"
    using assms(1,2) digit_chars [of "last ds"] by simp
  have st: "strip (sg @ ds) = sg @ ds"
    using ne h l by (rule strip_id)
  have "CHR '','' \<notin> set (sg @ ds)"
    using assms(2,3) digit_chars [of "CHR '',''"] by auto
  then have nc: "remove_commas (sg @ ds) = sg @ ds"
    unfolding remove_commas_def by (intro filter_True) metis
  have np: "\<not> startswith (sg @ ds) [CHR ''0'', c]" if "\<not> is_digit c" for c
  proof
    assume a: "startswith (sg @ ds) [CHR ''0'', c]"
    from assms(3) show False
    proof
      assume "sg = []"
      with a have "take (Suc (Suc 0)) ds = [CHR ''0'', c]" by (simp add: startswith_def)
      then have "c \<in> set (take (Suc (Suc 0)) ds)" by simp
      then have "c \<in> set ds" by (rule in_set_takeD)
      with assms(2) that show False by blast
    next
      assume "sg = ''-''"
      with a show False by (simp add: startswith_def)
    qed
  qed
  have nd: "\<not> is_digit CHR ''x''" "\<not> is_digit CHR ''X''" "\<not> is_digit CHR ''b''" "\<not> is_digit CHR ''B''"
    by (simp_all add: is_digit_def)
  show ?thesis
    unfolding st nc immediate_literal_def using np [OF nd(1)] np [OF nd(2)] np [OF nd(3)] np [OF nd(4)]
    by (simp only: if_False simp_thms)
qed

lemma digit_value_chars:
  "digit_value CHR ''0'' = Some 0" "digit_value CHR ''1'' = Some 1" "digit_value CHR ''2'' = Some 2"
  "digit_value CHR ''3'' = Some 3" "digit_value CHR ''4'' = Some 4" "digit_value CHR ''5'' = Some 5"
  "digit_value CHR ''6'' = Some 6" "digit_value CHR ''7'' = Some 7" "digit_value CHR ''8'' = Some 8"
  "digit_value CHR ''9'' = Some 9" "digit_value CHR ''a'' = Some 10" "digit_value CHR ''b'' = Some 11"
  "digit_value CHR ''c'' = Some 12" "digit_value CHR ''d'' = Some 13" "digit_value CHR ''e'' = Some 14"
  "digit_value CHR ''f'' = Some 15" "digit_value CHR ''A'' = Some 10" "digit_value CHR ''B'' = Some 11"
  "digit_value CHR ''C'' = Some 12" "digit_value CHR ''D'' = Some 13" "digit_value CHR ''E'' = Some 14"
  "digit_value CHR ''F'' = Some 15"
  by code_simp+

lemma digit_of_chars:
  "digit_of CHR ''0'' = 0" "digit_of CHR ''1'' = 1" "digit_of CHR ''2'' = 2"
  "digit_of CHR ''3'' = 3" "digit_of CHR ''4'' = 4" "digit_of CHR ''5'' = 5"
  "digit_of CHR ''6'' = 6" "digit_of CHR ''7'' = 7" "digit_of CHR ''8'' = 8"
  "digit_of CHR ''9'' = 9" "digit_of CHR ''a'' = 10" "digit_of CHR ''b'' = 11"
  "digit_of CHR ''c'' = 12" "digit_of CHR ''d'' = 13" "digit_of CHR ''e'' = 14"
  "digit_of CHR ''f'' = 15" "digit_of CHR ''A'' = 10" "digit_of CHR ''B'' = 11"
  "digit_of CHR ''C'' = 12" "digit_of CHR ''D'' = 13" "digit_of CHR ''E'' = 14"
  "digit_of CHR ''F'' = 15"
  by (simp_all add: digit_of_def)

lemma hex_digit_all:
  "\<forall>c \<in> set ''0123456789abcdefABCDEF''.
     digit_value c = Some (digit_of c) \<and> digit_of c < 16 \<and> c \<noteq> CHR ''_'' \<and> \<not> is_space c
     \<and> c \<noteq> CHR '',''"
  by (simp add: digit_value_chars digit_of_chars is_space_def)

lemma hex_digit:
  assumes "is_hex_digit c"
  shows "digit_value c = Some (digit_of c) \<and> digit_of c < 16 \<and> c \<noteq> CHR ''_'' \<and> \<not> is_space c
         \<and> c \<noteq> CHR '',''"
  using assms hex_digit_all unfolding is_hex_digit_def by blast

lemma dec_digit_all:
  "\<forall>c \<in> set ''0123456789''. is_hex_digit c \<and> digit_of c < 10"
  by (simp add: digit_of_chars is_hex_digit_def)

lemma dec_digit:
  assumes "is_digit c"
  shows "is_hex_digit c \<and> digit_of c < 10"
  using assms dec_digit_all unfolding is_digit_def by blast

lemma bin_digit_all:
  "\<forall>c \<in> set ''01''. is_hex_digit c \<and> digit_of c < 2"
  by (simp add: digit_of_chars is_hex_digit_def)

lemma bin_digit:
  assumes "is_bin_digit c"
  shows "is_hex_digit c \<and> digit_of c < 2"
  using assms bin_digit_all unfolding is_bin_digit_def by blast

lemma int_digits_step:
  assumes "digit_value c = Some d" "d < base" "c \<noteq> CHR ''_''"
  shows "int_digits base acc seen us (c # cs) = int_digits base (acc * base + d) True False cs"
  using assms by simp

lemma int_digits_plain:
  assumes "\<forall>c \<in> set ds. digit_value c = Some (digit_of c) \<and> digit_of c < base \<and> c \<noteq> CHR ''_''"
    and "ds \<noteq> []"
  shows "int_digits base acc seen us ds = Some (foldl (\<lambda>a c. a * base + digit_of c) acc ds)"
  using assms
proof (induction ds arbitrary: acc seen us)
  case Nil
  then show ?case by simp
next
  case (Cons c cs)
  from Cons.prems(1) have c: "digit_value c = Some (digit_of c)" "digit_of c < base" "c \<noteq> CHR ''_''"
    by simp_all
  have step: "int_digits base acc seen us (c # cs)
      = int_digits base (acc * base + digit_of c) True False cs"
    using c by (rule int_digits_step)
  show ?case
  proof (cases "cs = []")
    case True
    then show ?thesis unfolding step by simp
  next
    case False
    from Cons.prems(1) have "\<forall>c \<in> set cs. digit_value c = Some (digit_of c) \<and> digit_of c < base \<and> c \<noteq> CHR ''_''"
      by simp
    from Cons.IH [OF this False, of "acc * base + digit_of c" True False]
    show ?thesis unfolding step by simp
  qed
qed

lemma number_of_plain:
  assumes "\<forall>c \<in> set ds. is_hex_digit c \<and> digit_of c < base" "ds \<noteq> []"
  shows "int_digits base 0 False False ds = Some (number_of base ds)"
  unfolding number_of_def
proof (rule int_digits_plain)
  show "\<forall>c \<in> set ds. digit_value c = Some (digit_of c) \<and> digit_of c < base \<and> c \<noteq> CHR ''_''"
    using assms(1) hex_digit by blast
qed (rule assms(2))

lemma no_underscore:
  assumes "\<forall>c \<in> set ds. is_hex_digit c"
  shows "filter (\<lambda>c. c \<noteq> CHR ''_'') ds = ds"
  using assms hex_digit by (intro filter_True) blast

lemma py_int_decimal:
  assumes "ds \<noteq> []" "\<forall>c \<in> set ds. is_digit c" "sg = [] \<or> sg = ''-''"
  shows "py_int 10 (sg @ ds) =
     (if length ds > 4300 then None
      else Some (if sg = ''-'' then - int (number_of 10 ds) else int (number_of 10 ds)))"
proof -
  have hex: "\<forall>c \<in> set ds. is_hex_digit c \<and> digit_of c < 10"
    using assms(2) dec_digit by blast
  have ne: "sg @ ds \<noteq> []" using assms(1) by simp
  have h: "\<not> is_space (hd (sg @ ds))"
    using assms digit_chars [of "hd ds"] by (cases ds) (auto simp: special_chars)
  have l: "\<not> is_space (last (sg @ ds))"
    using assms(1,2) digit_chars [of "last ds"] by simp
  have st: "strip (sg @ ds) = sg @ ds"
    using ne h l by (rule strip_id)
  have hd: "hd ds \<noteq> CHR ''-''" "hd ds \<noteq> CHR ''+''"
    using assms(1,2) hex hex_digit_all by (cases ds; auto simp: is_hex_digit_def)+
  have sw: "startswith (sg @ ds) ''-'' \<longleftrightarrow> sg = ''-''" "\<not> startswith ds ''+''"
    using assms(1,3) hd by (cases ds; auto simp: startswith_def)+
  have u: "(if startswith (sg @ ds) ''-'' \<or> startswith (sg @ ds) ''+'' then drop 1 (sg @ ds)
            else sg @ ds) = ds"
    using assms(3) sw by (auto simp: startswith_def)
  have d: "int_digits 10 0 False False ds = Some (number_of 10 ds)"
    using hex assms(1) by (rule number_of_plain)
  have f: "filter (\<lambda>c. c \<noteq> CHR ''_'') ds = ds"
    using hex by (intro no_underscore) blast
  show ?thesis
    unfolding py_int_def Let_def st u
    by (simp add: int_prefix_def d f sw(1) int_max_str_digits_def)
qed

lemma py_int_prefixed:
  assumes "hs \<noteq> []" "\<forall>c \<in> set hs. is_hex_digit c \<and> digit_of c < base"
    and "(base = 16 \<and> (p = ''0x'' \<or> p = ''0X'')) \<or> (base = 2 \<and> (p = ''0b'' \<or> p = ''0B''))"
  shows "py_int base (p @ hs) = Some (int (number_of base hs))"
    and "immediate_literal (remove_commas (strip (p @ hs))) = Some (int (number_of base hs))"
proof -
  have ne: "p @ hs \<noteq> []" using assms(1) by simp
  have p0: "hd (p @ hs) = CHR ''0''" "length p = 2" "CHR '','' \<notin> set p"
    using assms(3) by auto
  have h: "\<not> is_space (hd (p @ hs))"
    unfolding p0 by (simp add: is_space_def)
  have l: "\<not> is_space (last (p @ hs))"
    using assms(1,2) hex_digit [of "last hs"] by simp
  have st: "strip (p @ hs) = p @ hs"
    using ne h l by (rule strip_id)
  have nc: "remove_commas (p @ hs) = p @ hs"
    unfolding remove_commas_def using assms(2) hex_digit p0(3) by (intro filter_True) auto
  have nsign: "\<not> startswith (p @ hs) ''-''" "\<not> startswith (p @ hs) ''+''"
    using assms(3) by (auto simp: startswith_def)
  have hd: "hd hs \<noteq> CHR ''_''"
    using assms(1,2) hex_digit [of "hd hs"] by (cases hs) auto
  have nus: "\<not> startswith hs ''_''"
    using assms(1) hd by (cases hs) (auto simp: startswith_def)
  have pre: "int_prefix base (p @ hs) = hs"
    using assms(3) nus by (auto simp: int_prefix_def startswith_def)
  have d: "int_digits base 0 False False hs = Some (number_of base hs)"
    using assms(2,1) by (rule number_of_plain)
  have b: "base \<in> set [2, 4, 8, 16, 32]"
    using assms(3) by auto
  show v: "py_int base (p @ hs) = Some (int (number_of base hs))"
    unfolding py_int_def Let_def st using nsign b by (simp add: pre d)
  have "immediate_literal (p @ hs) = py_int base (p @ hs)"
    using assms(3) by (auto simp: immediate_literal_def startswith_def)
  then show "immediate_literal (remove_commas (strip (p @ hs))) = Some (int (number_of base hs))"
    unfolding st nc by (simp only: v)
qed

lemma immediate_literal_decimal_value:
  assumes "ds \<noteq> []" "\<forall>c \<in> set ds. is_digit c" "sg = [] \<or> sg = ''-''"
  shows "immediate_literal (remove_commas (strip (sg @ ds))) =
     (if length ds > 4300 then None
      else Some (if sg = ''-'' then - int (number_of 10 ds) else int (number_of 10 ds)))"
  using immediate_literal_decimal [OF assms] py_int_decimal [OF assms] by simp

subsection \<open>C4: the range check of \<^verbatim>\<open>parse_immediate\<close>\<close>

lemma twos_complement:
  assumes "- (2 ^ bits) \<le> v" "v < 0"
  shows "v AND (push_bit bits 1 - 1) = v + (2 ^ bits :: int)"
proof -
  have "v AND (push_bit bits 1 - 1) = take_bit bits v"
    by (simp add: take_bit_eq_mask mask_eq_exp_minus_1)
  also have "\<dots> = v mod 2 ^ bits"
    by (simp add: take_bit_eq_mod)
  also have "\<dots> = (v + 2 ^ bits) mod 2 ^ bits"
    by simp
  also have "\<dots> = v + 2 ^ bits"
    using assms by (intro mod_pos_pos_trivial) simp_all
  finally show ?thesis .
qed

lemma half_le_full: "(2::int) ^ (bits - 1) \<le> 2 ^ bits"
  by (rule power_increasing) simp_all

lemma parse_immediate_value:
  assumes "0 < bits" and "immediate_literal (remove_commas (strip tok)) = Some v"
  shows "parse_immediate tok bits sg =
           (if (if sg then - (2 ^ (bits - 1)) \<le> v \<and> v \<le> 2 ^ (bits - 1) - 1
                else 0 \<le> v \<and> v \<le> 2 ^ bits - 1)
            then Inr (if v < 0 then v + 2 ^ bits else v)
            else Inl (ImmediateOutOfRange v (if sg then - (2 ^ (bits - 1)) else 0)
                        (if sg then 2 ^ (bits - 1) - 1 else 2 ^ bits - 1)))"
proof -
  have neg: "v AND (push_bit bits 1 - 1) = v + 2 ^ bits"
    if "- (2 ^ (bits - 1)) \<le> v" "v < 0"
  proof (rule twos_complement)
    show "- (2 ^ bits) \<le> v"
      using that(1) half_le_full [of bits] by linarith
  qed (rule that(2))
  show ?thesis
    using assms neg by (auto simp: parse_immediate_def Let_def push_bit_of_1)
qed

lemma parse_immediate_invalid:
  assumes "immediate_literal (remove_commas (strip tok)) = None"
  shows "parse_immediate tok bits sg = Inl (InvalidLiteral (remove_commas (strip tok)))"
  using assms by (simp add: parse_immediate_def Let_def)

text \<open>
  C4: \<^verbatim>\<open>parse_immediate\<close> accepts the three forms with their values: a string of decimal
  digits (of at most 4300 digits, the limit of \<^verbatim>\<open>int\<close>), also after a minus sign, is
  read in base 10; hexadecimal digits of either case after \<^verbatim>\<open>0x\<close> or \<^verbatim>\<open>0X\<close> in base 16;
  binary digits after \<^verbatim>\<open>0b\<close> or \<^verbatim>\<open>0B\<close> in base 2. For a token whose cleaned text is a
  literal of value \<open>v\<close> and a width of at least one bit, it succeeds exactly when \<open>v\<close>
  lies in \<open>[-2^(width-1), 2^(width-1)-1]\<close> (signed) or \<open>[0, 2^width-1]\<close> (unsigned),
  fails with the out-of-range error otherwise, and gives a negative value as its two's
  complement of that width. So \<^verbatim>\<open>addi x1,x0,2048\<close> fails and \<^verbatim>\<open>addi x1,x0,2047\<close> has the
  immediate field \<^verbatim>\<open>0x7FF\<close>.
\<close>

theorem parse_immediate_range:
  assumes "0 < bits" and "immediate_literal (remove_commas (strip tok)) = Some v"
  shows "parse_immediate tok bits sg =
           (if (if sg then - (2 ^ (bits - 1)) \<le> v \<and> v \<le> 2 ^ (bits - 1) - 1
                else 0 \<le> v \<and> v \<le> 2 ^ bits - 1)
            then Inr (if v < 0 then v + 2 ^ bits else v)
            else Inl (ImmediateOutOfRange v (if sg then - (2 ^ (bits - 1)) else 0)
                        (if sg then 2 ^ (bits - 1) - 1 else 2 ^ bits - 1)))
       \<and> immediate_literal ''2047'' = Some 2047
       \<and> immediate_literal ''0x7FF'' = Some 2047
       \<and> immediate_literal ''0b11111111111'' = Some 2047
       \<and> immediate_literal ''-2048'' = Some (- 2048)
       \<and> assemble_instruction lbls ''addi x1,x0,2048'' addr
           = Inl (ImmediateOutOfRange 2048 (- 2048) 2047)
       \<and> assemble_instruction lbls ''addi x1,x0,2047'' addr = Inr 0x7FF00093
       \<and> drop_bit 20 (0x7FF00093 :: int) = 0x7FF
       \<and> (ds \<noteq> [] \<longrightarrow> (\<forall>c \<in> set ds. is_digit c) \<longrightarrow>
            (length ds \<le> 4300 \<longrightarrow>
               immediate_literal (remove_commas (strip ds)) = Some (int (number_of 10 ds))
             \<and> immediate_literal (remove_commas (strip (''-'' @ ds)))
                 = Some (- int (number_of 10 ds)))
          \<and> (4300 < length ds \<longrightarrow>
               parse_immediate ds bits sg = Inl (InvalidLiteral ds)))
       \<and> (hs \<noteq> [] \<longrightarrow> (\<forall>c \<in> set hs. is_hex_digit c) \<longrightarrow>
             immediate_literal (remove_commas (strip (''0x'' @ hs))) = Some (int (number_of 16 hs))
           \<and> immediate_literal (remove_commas (strip (''0X'' @ hs))) = Some (int (number_of 16 hs)))
       \<and> (bs \<noteq> [] \<longrightarrow> (\<forall>c \<in> set bs. is_bin_digit c) \<longrightarrow>
             immediate_literal (remove_commas (strip (''0b'' @ bs))) = Some (int (number_of 2 bs))
           \<and> immediate_literal (remove_commas (strip (''0B'' @ bs))) = Some (int (number_of 2 bs)))
       \<and> number_of 10 ''2047'' = 2047 \<and> number_of 16 ''7fF'' = 2047
       \<and> number_of 2 ''11111111111'' = 2047"
proof -
  have main: "parse_immediate tok bits sg =
           (if (if sg then - (2 ^ (bits - 1)) \<le> v \<and> v \<le> 2 ^ (bits - 1) - 1
                else 0 \<le> v \<and> v \<le> 2 ^ bits - 1)
            then Inr (if v < 0 then v + 2 ^ bits else v)
            else Inl (ImmediateOutOfRange v (if sg then - (2 ^ (bits - 1)) else 0)
                        (if sg then 2 ^ (bits - 1) - 1 else 2 ^ bits - 1)))"
    using assms by (rule parse_immediate_value)
  have l1: "immediate_literal ''2047'' = Some 2047" by code_simp
  have l2: "immediate_literal ''0x7FF'' = Some 2047" by code_simp
  have l3: "immediate_literal ''0b11111111111'' = Some 2047" by code_simp
  have l4: "immediate_literal ''-2048'' = Some (- 2048)" by code_simp
  have a1: "assemble_instruction lbls ''addi x1,x0,2048'' addr
           = Inl (ImmediateOutOfRange 2048 (- 2048) 2047)" by code_simp
  have a2: "assemble_instruction lbls ''addi x1,x0,2047'' addr = Inr 0x7FF00093" by code_simp
  have a3: "drop_bit 20 (0x7FF00093 :: int) = 0x7FF" by code_simp
  have dec: "(length ds \<le> 4300 \<longrightarrow>
               immediate_literal (remove_commas (strip ds)) = Some (int (number_of 10 ds))
             \<and> immediate_literal (remove_commas (strip (''-'' @ ds)))
                 = Some (- int (number_of 10 ds)))
          \<and> (4300 < length ds \<longrightarrow>
               parse_immediate ds bits sg = Inl (InvalidLiteral ds))"
    if d: "ds \<noteq> []" "\<forall>c \<in> set ds. is_digit c"
  proof -
    have p: "immediate_literal (remove_commas (strip ([] @ ds))) =
       (if length ds > 4300 then None else Some (int (number_of 10 ds)))"
      using immediate_literal_decimal_value [OF d, of "[]"] by simp
    have n: "immediate_literal (remove_commas (strip (''-'' @ ds))) =
       (if length ds > 4300 then None else Some (- int (number_of 10 ds)))"
      using immediate_literal_decimal_value [OF d, of "''-''"] by simp
    have c: "remove_commas (strip ds) = ds"
    proof -
      have "\<not> is_space (hd ds)" "\<not> is_space (last ds)"
        using d digit_chars [of "hd ds"] digit_chars [of "last ds"] by simp_all
      with d(1) have "strip ds = ds" by (intro strip_id)
      moreover have "remove_commas ds = ds"
        unfolding remove_commas_def using d(2) digit_chars by (intro filter_True) blast
      ultimately show ?thesis by simp
    qed
    have "parse_immediate ds bits sg = Inl (InvalidLiteral ds)" if "4300 < length ds"
      using parse_immediate_invalid [of ds bits sg] p that by (simp add: c)
    with p n show ?thesis by simp
  qed
  have hex: "immediate_literal (remove_commas (strip (''0x'' @ hs))) = Some (int (number_of 16 hs))
           \<and> immediate_literal (remove_commas (strip (''0X'' @ hs))) = Some (int (number_of 16 hs))"
    if h: "hs \<noteq> []" "\<forall>c \<in> set hs. is_hex_digit c"
  proof -
    have hh: "\<forall>c \<in> set hs. is_hex_digit c \<and> digit_of c < 16"
      using h(2) hex_digit by blast
    show ?thesis
      using py_int_prefixed(2) [OF h(1) hh, of "''0x''"] py_int_prefixed(2) [OF h(1) hh, of "''0X''"]
      by simp
  qed
  have bin: "immediate_literal (remove_commas (strip (''0b'' @ bs))) = Some (int (number_of 2 bs))
           \<and> immediate_literal (remove_commas (strip (''0B'' @ bs))) = Some (int (number_of 2 bs))"
    if b: "bs \<noteq> []" "\<forall>c \<in> set bs. is_bin_digit c"
  proof -
    have bb: "\<forall>c \<in> set bs. is_hex_digit c \<and> digit_of c < 2"
      using b(2) bin_digit by blast
    show ?thesis
      using py_int_prefixed(2) [OF b(1) bb, of "''0b''"] py_int_prefixed(2) [OF b(1) bb, of "''0B''"]
      by simp
  qed
  have n: "number_of 10 ''2047'' = 2047" "number_of 16 ''7fF'' = 2047"
    "number_of 2 ''11111111111'' = 2047"
    by (simp_all add: number_of_def digit_of_chars)
  from main l1 l2 l3 l4 a1 a2 a3 dec hex bin n show ?thesis
    by (intro conjI impI) blast+
qed

text \<open>
  The statement at \<^verbatim>\<open>-1\<close> (signed, 12 bits), \<^verbatim>\<open>4096\<close> (unsigned, 12 bits), and at the
  literals \<^verbatim>\<open>0X7fF\<close>, \<^verbatim>\<open>0b101\<close> and \<^verbatim>\<open>0042\<close>, whose values come from the forms.
\<close>

theorem parse_immediate_range_witness:
  "parse_immediate ''-1'' 12 True = Inr 4095
   \<and> parse_immediate ''4096'' 12 False = Inl (ImmediateOutOfRange 4096 0 4095)
   \<and> parse_immediate ''0X7fF'' 12 True = Inr 2047
   \<and> parse_immediate ''0b101'' 5 False = Inr 5
   \<and> parse_immediate ''0042'' 12 True = Inr 42"
proof -
  have v: "immediate_literal (remove_commas (strip ''-1'')) = Some (- 1)" by code_simp
  have u: "immediate_literal (remove_commas (strip ''4096'')) = Some 4096" by code_simp
  have b: "(0::nat) < 12" "(0::nat) < 5" by simp_all
  note T = parse_immediate_range [OF b(1) v, where ds = "''0042''" and hs = "''7fF''"
      and bs = "''101''"]
  have d: "''0042'' \<noteq> []" "\<forall>c \<in> set ''0042''. is_digit c" "length ''0042'' \<le> 4300"
    by (simp_all add: is_digit_def)
  have h: "''7fF'' \<noteq> []" "\<forall>c \<in> set ''7fF''. is_hex_digit c"
    by (simp_all add: is_hex_digit_def)
  have c: "''101'' \<noteq> []" "\<forall>c \<in> set ''101''. is_bin_digit c"
    by (simp_all add: is_bin_digit_def)
  have n: "number_of 10 ''0042'' = 42" "number_of 16 ''7fF'' = 2047" "number_of 2 ''101'' = 5"
    by (simp_all add: number_of_def digit_of_chars)
  from T d have "immediate_literal (remove_commas (strip ''0042''))
      = Some (int (number_of 10 ''0042''))"
    by blast
  then have ld: "immediate_literal (remove_commas (strip ''0042'')) = Some 42"
    by (simp only: n of_nat_numeral)
  from T h have "immediate_literal (remove_commas (strip (''0X'' @ ''7fF'')))
      = Some (int (number_of 16 ''7fF''))"
    by blast
  then have lh: "immediate_literal (remove_commas (strip (''0X'' @ ''7fF''))) = Some 2047"
    by (simp only: n of_nat_numeral)
  from T c have "immediate_literal (remove_commas (strip (''0b'' @ ''101'')))
      = Some (int (number_of 2 ''101''))"
    by blast
  then have lb: "immediate_literal (remove_commas (strip (''0b'' @ ''101''))) = Some 5"
    by (simp only: n of_nat_numeral)
  have r1: "parse_immediate ''-1'' 12 True = Inr 4095"
    using T by simp
  have r2: "parse_immediate ''4096'' 12 False = Inl (ImmediateOutOfRange 4096 0 4095)"
    using parse_immediate_range [OF b(1) u, of False] by simp
  have r3: "parse_immediate (''0X'' @ ''7fF'') 12 True = Inr 2047"
    using parse_immediate_range [OF b(1) lh, of True] by simp
  have r4: "parse_immediate (''0b'' @ ''101'') 5 False = Inr 5"
    using parse_immediate_range [OF b(2) lb, of False] by simp
  have r5: "parse_immediate ''0042'' 12 True = Inr 42"
    using parse_immediate_range [OF b(1) ld, of True] by simp
  from r1 r2 r3 r4 r5 show ?thesis by simp
qed

subsection \<open>C10: the offset of a memory operand is range-checked\<close>

lemma run_split:
  assumes "\<forall>c \<in> set xs. P c" "ys = [] \<or> \<not> P (hd ys)"
  shows "takeWhile P (xs @ ys) = xs" "dropWhile P (xs @ ys) = ys"
proof -
  have "takeWhile P ys = []" "dropWhile P ys = ys"
    using assms(2) by (cases ys; auto)+
  then show "takeWhile P (xs @ ys) = xs" "dropWhile P (xs @ ys) = ys"
    using assms(1) by (simp_all add: takeWhile_append2 dropWhile_append2)
qed

lemma space_not_word: "is_space c \<Longrightarrow> \<not> is_word c \<and> \<not> is_digit c"
  by (auto simp: is_space_def is_word_def is_digit_def)

lemma match_memory_operand_general:
  assumes "sg = [] \<or> sg = ''-''" "ds \<noteq> []" "\<forall>c \<in> set ds. is_digit c"
    and "\<forall>c \<in> set sp1. is_space c" "\<forall>c \<in> set sp2. is_space c"
    and "w \<noteq> []" "\<forall>c \<in> set w. is_word c" "\<forall>c \<in> set sp3. is_space c"
  shows "match_memory_operand (sg @ ds @ sp1 @ ''('' @ sp2 @ w @ sp3 @ '')'' @ rest)
     = Some (sg @ ds, w)"
proof -
  define t5 where "t5 = CHR '')'' # rest"
  define t4 where "t4 = sp3 @ t5"
  define t3 where "t3 = w @ t4"
  define t2 where "t2 = sp2 @ t3"
  define t1 where "t1 = CHR ''('' # t2"
  define t0 where "t0 = sp1 @ t1"
  define r0 where "r0 = ds @ t0"
  have full: "sg @ ds @ sp1 @ ''('' @ sp2 @ w @ sp3 @ '')'' @ rest = sg @ r0"
    by (simp add: r0_def t0_def t1_def t2_def t3_def t4_def t5_def)
  have h0: "t0 = [] \<or> \<not> is_digit (hd t0)"
    using assms(4) space_not_word [of "hd sp1"]
    by (cases sp1) (auto simp: t0_def t1_def special_chars)
  have d: "takeWhile is_digit r0 = ds" "dropWhile is_digit r0 = t0"
    unfolding r0_def using assms(3) h0 by (rule run_split)+
  have s1: "dropWhile is_space t0 = t1"
    unfolding t0_def using assms(4) by (rule run_split) (simp add: t1_def special_chars)
  have h3: "t3 = [] \<or> \<not> is_space (hd t3)"
    using assms(6,7) word_chars [of "hd w"] by (cases w) (auto simp: t3_def)
  have s2: "dropWhile is_space t2 = t3"
    unfolding t2_def using assms(5) h3 by (rule run_split)
  have h4: "t4 = [] \<or> \<not> is_word (hd t4)"
    using assms(8) space_not_word [of "hd sp3"]
    by (cases sp3) (auto simp: t4_def t5_def special_chars)
  have wd: "takeWhile is_word t3 = w" "dropWhile is_word t3 = t4"
    unfolding t3_def using assms(7) h4 by (rule run_split)+
  have s3: "dropWhile is_space t4 = t5"
    unfolding t4_def using assms(8) by (rule run_split) (simp add: t5_def special_chars)
  have hd: "hd ds \<noteq> CHR ''-''"
    using assms(2,3) digit_chars [of "hd ds"] by (cases ds) auto
  from assms(1) have "match_memory_operand (sg @ r0) = Some (sg @ ds, w)"
  proof
    assume sg: "sg = []"
    have sw: "\<not> startswith r0 ''-''"
      unfolding r0_def using assms(2) hd by (cases ds) (auto simp: startswith_def)
    show ?thesis
      unfolding match_memory_operand_def using sw assms(2,6)
      by (simp add: Let_def sg d s1 s2 wd s3 t1_def t5_def)
  next
    assume sg: "sg = ''-''"
    show ?thesis
      unfolding match_memory_operand_def using assms(2,6)
      by (simp add: Let_def sg startswith_def d s1 s2 wd s3 t1_def t5_def)
  qed
  then show ?thesis by (simp only: full)
qed

lemma match_memory_operand_shape:
  assumes "match_memory_operand s = Some (g1, g2)"
  shows "\<exists>sg ds sp1 sp2 w sp3 rest.
     s = sg @ ds @ sp1 @ ''('' @ sp2 @ w @ sp3 @ '')'' @ rest
     \<and> (sg = [] \<or> sg = ''-'') \<and> ds \<noteq> [] \<and> (\<forall>c \<in> set ds. is_digit c)
     \<and> (\<forall>c \<in> set sp1. is_space c) \<and> (\<forall>c \<in> set sp2. is_space c)
     \<and> w \<noteq> [] \<and> (\<forall>c \<in> set w. is_word c) \<and> (\<forall>c \<in> set sp3. is_space c)
     \<and> g1 = sg @ ds \<and> g2 = w"
proof -
  define sg where "sg = (if startswith s ''-'' then ''-'' else [])"
  define r0 where "r0 = drop (length sg) s"
  define ds where "ds = takeWhile is_digit r0"
  define t0 where "t0 = dropWhile is_digit r0"
  define sp1 where "sp1 = takeWhile is_space t0"
  define t1 where "t1 = dropWhile is_space t0"
  define t2 where "t2 = tl t1"
  define sp2 where "sp2 = takeWhile is_space t2"
  define t3 where "t3 = dropWhile is_space t2"
  define w where "w = takeWhile is_word t3"
  define t4 where "t4 = dropWhile is_word t3"
  define sp3 where "sp3 = takeWhile is_space t4"
  define t5 where "t5 = dropWhile is_space t4"
  have m: "(if ds = [] then None
         else (case t1 of
                 [] \<Rightarrow> None
               | c # r1 \<Rightarrow>
                   if c \<noteq> CHR ''('' then None
                   else let r2 = dropWhile is_space r1;
                            w = takeWhile is_word r2
                        in if w = [] then None
                           else (case dropWhile is_space (dropWhile is_word r2) of
                                   [] \<Rightarrow> None
                                 | d # _ \<Rightarrow> if d = CHR '')'' then Some (sg @ ds, w) else None)))
        = Some (g1, g2)"
    using assms
    unfolding match_memory_operand_def Let_def sg_def r0_def ds_def t0_def t1_def
    by simp
  from m have ds: "ds \<noteq> []" by (cases "ds = []") simp_all
  with m have m1: "(case t1 of
                 [] \<Rightarrow> None
               | c # r1 \<Rightarrow>
                   if c \<noteq> CHR ''('' then None
                   else let r2 = dropWhile is_space r1;
                            w = takeWhile is_word r2
                        in if w = [] then None
                           else (case dropWhile is_space (dropWhile is_word r2) of
                                   [] \<Rightarrow> None
                                 | d # _ \<Rightarrow> if d = CHR '')'' then Some (sg @ ds, w) else None))
        = Some (g1, g2)"
    by simp
  then obtain c r1 where t1c: "t1 = c # r1" by (cases t1) simp_all
  with m1 have c: "c = CHR ''(''" by (cases "c = CHR ''(''") simp_all
  have r1: "r1 = t2" by (simp add: t2_def t1c)
  from m1 have m2: "(if w = [] then None
       else (case t5 of [] \<Rightarrow> None
             | d # _ \<Rightarrow> if d = CHR '')'' then Some (sg @ ds, w) else None)) = Some (g1, g2)"
    unfolding t1c c r1 Let_def w_def t3_def t4_def t5_def by simp
  then have w: "w \<noteq> []" by (cases "w = []") simp_all
  with m2 have m3: "(case t5 of [] \<Rightarrow> None
             | d # _ \<Rightarrow> if d = CHR '')'' then Some (sg @ ds, w) else None) = Some (g1, g2)"
    by simp
  then obtain d rest where t5d: "t5 = d # rest" by (cases t5) simp_all
  with m3 have d: "d = CHR '')''" and g: "g1 = sg @ ds" "g2 = w"
    by (cases "d = CHR '')''"; simp)+
  have s: "s = sg @ r0"
  proof (cases "startswith s ''-''")
    case True
    then have "take 1 s = ''-''" by (simp add: startswith_def)
    then have "s = ''-'' @ drop 1 s" by (metis append_take_drop_id)
    with True show ?thesis by (simp add: r0_def sg_def)
  next
    case False
    then show ?thesis by (simp add: r0_def sg_def)
  qed
  have p: "r0 = ds @ t0" "t0 = sp1 @ t1" "t2 = sp2 @ t3" "t3 = w @ t4" "t4 = sp3 @ t5"
    by (simp_all add: ds_def t0_def sp1_def t1_def sp2_def t3_def w_def t4_def sp3_def t5_def)
  have "s = sg @ ds @ sp1 @ CHR ''('' # sp2 @ w @ sp3 @ CHR '')'' # rest"
    unfolding s
    by (subst p(1), subst p(2), subst t1c, subst r1, subst p(3), subst p(4), subst p(5),
        subst t5d) (simp add: c d)
  then have full: "s = sg @ ds @ sp1 @ ''('' @ sp2 @ w @ sp3 @ '')'' @ rest"
    by simp
  have cs: "\<forall>c \<in> set ds. is_digit c" "\<forall>c \<in> set sp1. is_space c" "\<forall>c \<in> set sp2. is_space c"
    "\<forall>c \<in> set w. is_word c" "\<forall>c \<in> set sp3. is_space c"
    unfolding ds_def sp1_def sp2_def w_def sp3_def by (auto dest: set_takeWhileD)
  have sgc: "sg = [] \<or> sg = ''-''" by (simp add: sg_def)
  show ?thesis
    apply (rule exI [of _ sg], rule exI [of _ ds], rule exI [of _ sp1], rule exI [of _ sp2],
        rule exI [of _ w], rule exI [of _ sp3], rule exI [of _ rest])
    using full sgc ds cs w g by (intro conjI) assumption+
qed

lemma parse_immediate_not_memory: "parse_immediate s b g \<noteq> Inl (InvalidMemoryOperand t)"
  by (simp add: parse_immediate_def Let_def split: option.splits)

lemma parse_register_not_memory: "parse_register s \<noteq> Inl (InvalidMemoryOperand t)"
  by (simp add: parse_register_def Let_def split: option.splits)

lemma invalid_memory_operand_iff:
  "(\<exists>t. parse_memory_operand tok = Inl (InvalidMemoryOperand t))
   \<longleftrightarrow> match_memory_operand (strip tok) = None"
proof (cases "match_memory_operand (strip tok)")
  case None
  then show ?thesis by (simp add: parse_memory_operand_def)
next
  case (Some g)
  obtain g1 g2 where g: "g = (g1, g2)" by (cases g)
  show ?thesis
    using parse_immediate_not_memory [of g1 12 True] parse_register_not_memory [of g2]
    by (cases "parse_immediate g1 12 True"; cases "parse_register g2")
       (auto simp: parse_memory_operand_def Some g and_then_def)
qed

text \<open>
  C10: the pattern of \<^verbatim>\<open>parse_memory_operand\<close> is matched at the start of the trimmed
  token: an optional minus sign, digits, blanks, an opening parenthesis, blanks, a word,
  blanks, a closing parenthesis, and then anything. When the trimmed token has this shape
  and its number (of at most 4300 digits, the limit of \<^verbatim>\<open>int\<close>) lies outside
  \<open>[-2048, 2047]\<close>, the error raised is the out-of-range error of a 12-bit signed
  immediate, whatever the word is; and for every token, the invalid-operand error is raised
  exactly when the trimmed token has no such shape. So text after the closing parenthesis
  is ignored and never makes the operand invalid.
\<close>

theorem parse_memory_operand_range:
  assumes "strip tok = sg @ ds @ sp1 @ ''('' @ sp2 @ w @ sp3 @ '')'' @ rest"
    and "sg = [] \<or> sg = ''-''" "ds \<noteq> []" "\<forall>c \<in> set ds. is_digit c" "length ds \<le> 4300"
    and "\<forall>c \<in> set sp1. is_space c" "\<forall>c \<in> set sp2. is_space c"
    and "w \<noteq> []" "\<forall>c \<in> set w. is_word c" "\<forall>c \<in> set sp3. is_space c"
    and "v = (if sg = ''-'' then - int (number_of 10 ds) else int (number_of 10 ds))"
    and "v < - 2048 \<or> 2047 < v"
  shows "parse_memory_operand tok = Inl (ImmediateOutOfRange v (- 2048) 2047)
       \<and> ((\<exists>t. parse_memory_operand other = Inl (InvalidMemoryOperand t)) \<longleftrightarrow>
            \<not> (\<exists>sg ds sp1 sp2 w sp3 rest.
                  strip other = sg @ ds @ sp1 @ ''('' @ sp2 @ w @ sp3 @ '')'' @ rest
                  \<and> (sg = [] \<or> sg = ''-'') \<and> ds \<noteq> [] \<and> (\<forall>c \<in> set ds. is_digit c)
                  \<and> (\<forall>c \<in> set sp1. is_space c) \<and> (\<forall>c \<in> set sp2. is_space c)
                  \<and> w \<noteq> [] \<and> (\<forall>c \<in> set w. is_word c) \<and> (\<forall>c \<in> set sp3. is_space c)))"
proof
  have m: "match_memory_operand (strip tok) = Some (sg @ ds, w)"
    unfolding assms(1) using assms(2,3,4,6,7,8,9,10) by (rule match_memory_operand_general)
  have lit: "immediate_literal (remove_commas (strip (sg @ ds))) = Some v"
    using immediate_literal_decimal_value [OF assms(3,4,2)] assms(5,11) by simp
  have "parse_immediate (sg @ ds) 12 True = Inl (ImmediateOutOfRange v (- 2048) 2047)"
    using assms(12) by (auto simp: parse_immediate_def Let_def lit)
  then show "parse_memory_operand tok = Inl (ImmediateOutOfRange v (- 2048) 2047)"
    by (simp add: parse_memory_operand_def m and_then_def)
  have "match_memory_operand (strip other) = None \<longleftrightarrow>
            \<not> (\<exists>sg ds sp1 sp2 w sp3 rest.
                  strip other = sg @ ds @ sp1 @ ''('' @ sp2 @ w @ sp3 @ '')'' @ rest
                  \<and> (sg = [] \<or> sg = ''-'') \<and> ds \<noteq> [] \<and> (\<forall>c \<in> set ds. is_digit c)
                  \<and> (\<forall>c \<in> set sp1. is_space c) \<and> (\<forall>c \<in> set sp2. is_space c)
                  \<and> w \<noteq> [] \<and> (\<forall>c \<in> set w. is_word c) \<and> (\<forall>c \<in> set sp3. is_space c))"
    (is "?l \<longleftrightarrow> \<not> ?r")
  proof
    assume l: ?l
    show "\<not> ?r"
    proof
      assume ?r
      then obtain sg ds sp1 sp2 w sp3 rest where
        "strip other = sg @ ds @ sp1 @ ''('' @ sp2 @ w @ sp3 @ '')'' @ rest"
        "sg = [] \<or> sg = ''-''" "ds \<noteq> []" "\<forall>c \<in> set ds. is_digit c"
        "\<forall>c \<in> set sp1. is_space c" "\<forall>c \<in> set sp2. is_space c"
        "w \<noteq> []" "\<forall>c \<in> set w. is_word c" "\<forall>c \<in> set sp3. is_space c"
        by blast
      from match_memory_operand_general [OF this(2-9), of rest] this(1) l
      show False by simp
    qed
  next
    assume n: "\<not> ?r"
    show ?l
    proof (cases "match_memory_operand (strip other)")
      case None
      then show ?thesis .
    next
      case (Some g)
      obtain g1 g2 where "g = (g1, g2)" by (cases g)
      with Some have "match_memory_operand (strip other) = Some (g1, g2)" by simp
      from match_memory_operand_shape [OF this] have ?r by blast
      with n show ?thesis by contradiction
    qed
  qed
  with invalid_memory_operand_iff [of other]
  show "(\<exists>t. parse_memory_operand other = Inl (InvalidMemoryOperand t)) \<longleftrightarrow> \<not> ?r"
    by simp
qed

text \<open>
  The statement at \<^verbatim>\<open>4096(x0)\<close>, at a token with blanks, an unknown word and text after
  the parenthesis, and at \<^verbatim>\<open>8(x2)junk\<close>, which is not an invalid operand.
\<close>

theorem parse_memory_operand_range_witness:
  "parse_memory_operand ''4096(x0)'' = Inl (ImmediateOutOfRange 4096 (- 2048) 2047)
   \<and> parse_memory_operand '' -2049 ( nowhere ) tail ''
       = Inl (ImmediateOutOfRange (- 2049) (- 2048) 2047)
   \<and> parse_memory_operand ''8(x2)junk'' \<noteq> Inl (InvalidMemoryOperand ''8(x2)junk'')"
proof -
  have s1: "strip ''4096(x0)'' = [] @ ''4096'' @ [] @ ''('' @ [] @ ''x0'' @ [] @ '')'' @ []"
    by code_simp
  have s2: "strip '' -2049 ( nowhere ) tail ''
      = ''-'' @ ''2049'' @ '' '' @ ''('' @ '' '' @ ''nowhere'' @ '' '' @ '')'' @ '' tail''"
    by code_simp
  have s3: "strip ''8(x2)junk'' = [] @ ''8'' @ [] @ ''('' @ [] @ ''x2'' @ [] @ '')'' @ ''junk''"
    by code_simp
  have sg: "[] = [] \<or> [] = ''-''" "''-'' = [] \<or> ''-'' = ''-''" by simp_all
  have d: "''4096'' \<noteq> []" "\<forall>c \<in> set ''4096''. is_digit c" "length ''4096'' \<le> 4300"
    "''2049'' \<noteq> []" "\<forall>c \<in> set ''2049''. is_digit c" "length ''2049'' \<le> 4300"
    "''8'' \<noteq> []" "\<forall>c \<in> set ''8''. is_digit c"
    by (simp_all add: is_digit_def)
  have sp: "\<forall>c \<in> set []. is_space c" "\<forall>c \<in> set '' ''. is_space c"
    by (simp_all add: is_space_def)
  have w: "''x0'' \<noteq> []" "\<forall>c \<in> set ''x0''. is_word c" "''nowhere'' \<noteq> []"
    "\<forall>c \<in> set ''nowhere''. is_word c" "''x2'' \<noteq> []" "\<forall>c \<in> set ''x2''. is_word c"
    by (simp_all add: is_word_def)
  have v: "(4096::int) = (if [] = ''-'' then - int (number_of 10 ''4096'')
                          else int (number_of 10 ''4096''))"
    "(- 2049::int) = (if ''-'' = ''-'' then - int (number_of 10 ''2049'')
                      else int (number_of 10 ''2049''))"
    by (simp_all add: number_of_def digit_of_chars)
  have r: "(4096::int) < - 2048 \<or> 2047 < (4096::int)"
    "(- 2049::int) < - 2048 \<or> 2047 < (- 2049::int)"
    by simp_all
  note A = parse_memory_operand_range [OF s1 sg(1) d(1,2,3) sp(1) sp(1) w(1,2) sp(1) v(1) r(1),
      of "''8(x2)junk''"]
  note B = parse_memory_operand_range [OF s2 sg(2) d(4,5,6) sp(2) sp(2) w(3,4) sp(2) v(2) r(2)]
  have shape: "\<exists>sg ds sp1 sp2 w sp3 rest.
      strip ''8(x2)junk'' = sg @ ds @ sp1 @ ''('' @ sp2 @ w @ sp3 @ '')'' @ rest
      \<and> (sg = [] \<or> sg = ''-'') \<and> ds \<noteq> [] \<and> (\<forall>c \<in> set ds. is_digit c)
      \<and> (\<forall>c \<in> set sp1. is_space c) \<and> (\<forall>c \<in> set sp2. is_space c)
      \<and> w \<noteq> [] \<and> (\<forall>c \<in> set w. is_word c) \<and> (\<forall>c \<in> set sp3. is_space c)"
    apply (rule exI [of _ "[]"], rule exI [of _ "''8''"], rule exI [of _ "[]"],
        rule exI [of _ "[]"], rule exI [of _ "''x2''"], rule exI [of _ "[]"],
        rule exI [of _ "''junk''"])
    using s3 sg(1) d(7,8) sp(1) w(5,6) by (intro conjI) assumption+
  from A [THEN conjunct2] shape
  have c: "parse_memory_operand ''8(x2)junk'' \<noteq> Inl (InvalidMemoryOperand ''8(x2)junk'')"
    by blast
  from A [THEN conjunct1] B [THEN conjunct1] c show ?thesis by (intro conjI)
qed

subsection \<open>C9: the two operand forms of \<^verbatim>\<open>jalr\<close>\<close>

lemma and_then_simps:
  "and_then (Inr v) f = f v" "and_then (Inl e) f = Inl e"
  by (simp_all add: and_then_def)

lemma item_simps:
  "item (x # xs) 0 = Inr x"
  "item (x # y # xs) 1 = Inr y"
  "item (x # y # xs) (Suc 0) = Inr y"
  "item (x # y # z # xs) 2 = Inr z"
  "item (x # y # z # u # xs) 3 = Inr u"
  by (simp_all add: item_def)

lemma register_at_simps:
  "register_at (x # y # xs) 1 = parse_register y"
  "register_at (x # y # xs) (Suc 0) = parse_register y"
  "register_at (x # y # z # xs) 2 = parse_register z"
  "register_at (x # y # z # u # xs) 3 = parse_register u"
  by (simp_all add: register_at_def item_def and_then_def)

lemma encode_jalr:
  "encode_i_type ''jalr'' d s off =
     Inr (push_bit 20 (off AND 0xFFF) OR push_bit 15 s OR push_bit 12 0 OR push_bit 7 d OR 0x67)"
  by (simp add: encode_i_type_def lookup_def OPCODES_def FUNCT3_def and_then_simps)

text \<open>
  C9: \<^verbatim>\<open>jalr\<close> takes its second operand either as a memory operand \<^verbatim>\<open>offset(rs1)\<close>,
  chosen when the operand contains a parenthesis, or as a register \<^verbatim>\<open>rs1\<close>, which an
  immediate may follow as third operand; when no third operand is given the offset
  is 0. In each case the word is the I-type encoding of \<^verbatim>\<open>jalr\<close> with that offset.
\<close>

theorem jalr_forms:
  assumes "parts_of line = m # rd # operand # rest" "lower m = ''jalr''"
    and "parse_register rd = Inr d"
  shows "(CHR ''('' \<in> set operand \<longrightarrow> parse_memory_operand operand = Inr (off, s) \<longrightarrow>
            assemble_instruction lbls line addr = encode_i_type ''jalr'' d s off)
       \<and> (CHR ''('' \<notin> set operand \<longrightarrow> parse_register operand = Inr s \<longrightarrow>
            (rest = [] \<longrightarrow> assemble_instruction lbls line addr = encode_i_type ''jalr'' d s 0)
          \<and> (\<forall>imm more. rest = imm # more \<longrightarrow> parse_immediate imm 12 True = Inr off \<longrightarrow>
                assemble_instruction lbls line addr = encode_i_type ''jalr'' d s off))
       \<and> encode_i_type ''jalr'' d s off =
            Inr (push_bit 20 (off AND 0xFFF) OR push_bit 15 s OR push_bit 12 0 OR push_bit 7 d
                 OR 0x67)"
proof -
  have a: "assemble_instruction lbls line addr =
      and_then (if CHR ''('' \<in> set operand then parse_memory_operand operand
                else and_then (parse_register operand) (\<lambda>rs1.
                     and_then (if length (m # rd # operand # rest) > 3
                               then parse_immediate ((m # rd # operand # rest) ! 3) 12 True
                               else Inr 0) (\<lambda>offset. Inr (offset, rs1))))
        (\<lambda>(offset, rs1). encode_i_type ''jalr'' d rs1 offset)"
    unfolding assemble_instruction_def Let_def assms(1)
    by (simp add: assms(2,3) item_simps register_at_simps and_then_simps)
  show ?thesis
    unfolding a by (auto simp: and_then_simps encode_jalr)
qed

text \<open>The three forms at \<^verbatim>\<open>jalr x1, 8(x2)\<close>, \<^verbatim>\<open>jalr x1, x2\<close> and \<^verbatim>\<open>jalr x1, x2, 8\<close>.\<close>

theorem jalr_forms_witness:
  "assemble_instruction Map.empty ''jalr x1, 8(x2)'' 0 = Inr 0x008100E7
   \<and> assemble_instruction Map.empty ''jalr x1, x2'' 0 = Inr 0x000100E7
   \<and> assemble_instruction Map.empty ''jalr x1, x2, 8'' 0 = Inr 0x008100E7"
proof -
  have p: "parts_of ''jalr x1, 8(x2)'' = ''jalr'' # ''x1'' # ''8(x2)'' # []"
    "parts_of ''jalr x1, x2'' = ''jalr'' # ''x1'' # ''x2'' # []"
    "parts_of ''jalr x1, x2, 8'' = ''jalr'' # ''x1'' # ''x2'' # [''8'']"
    by code_simp+
  have m: "lower ''jalr'' = ''jalr''" by code_simp
  have r: "parse_register ''x1'' = Inr 1" "parse_register ''x2'' = Inr 2" by code_simp+
  have o: "parse_memory_operand ''8(x2)'' = Inr (8, 2)" "parse_immediate ''8'' 12 True = Inr 8"
    by code_simp+
  have c: "CHR ''('' \<in> set ''8(x2)''" "CHR ''('' \<notin> set ''x2''" by simp_all
  have e: "encode_i_type ''jalr'' 1 2 8 = Inr 0x008100E7" "encode_i_type ''jalr'' 1 2 0 = Inr 0x000100E7"
    by code_simp+
  from jalr_forms [OF p(1) m r(1), of 8 2 Map.empty 0]
    jalr_forms [OF p(2) m r(1), of 0 2 Map.empty 0]
    jalr_forms [OF p(3) m r(1), of 8 2 Map.empty 0]
  show ?thesis
    using c o r(2) e by simp
qed

subsection \<open>C3: the offset of a branch or jump\<close>
























subsection \<open>C5: pseudo-instructions and their expansions\<close>

lemma split_run_token:
  assumes "\<forall>c \<in> set t. \<not> is_space c"
  shows "split_run cur (t @ rest) = split_run (cur @ t) rest"
  using assms by (induction t arbitrary: cur) simp_all

lemma commas_to_blanks_token: "is_token t \<Longrightarrow> commas_to_blanks t = t"
  unfolding is_token_def commas_to_blanks_def by (intro map_idI) simp

lemma parts_of_sep:
  assumes "is_token t" "sep = CHR '' '' \<or> sep = CHR '',''"
  shows "parts_of (t @ sep # rest) = t # parts_of rest"
proof -
  have "commas_to_blanks (t @ sep # rest) = t @ CHR '' '' # commas_to_blanks rest"
    using assms(2) commas_to_blanks_token [OF assms(1)]
    by (auto simp: commas_to_blanks_def)
  moreover have "split_run [] (t @ CHR '' '' # r) = t # split_run [] r" for r
  proof -
    have "split_run [] (t @ CHR '' '' # r) = split_run ([] @ t) (CHR '' '' # r)"
      using assms(1) by (intro split_run_token) (simp add: is_token_def)
    also have "\<dots> = t # split_run [] r"
      using assms(1) by (simp add: is_token_def is_space_def)
    finally show ?thesis .
  qed
  ultimately show ?thesis by (simp add: parts_of_def split_ws_def)
qed

lemma parts_of_end:
  assumes "is_token t"
  shows "parts_of t = [t]"
proof -
  have "split_run [] (t @ []) = split_run ([] @ t) []"
    using assms by (intro split_run_token) (simp add: is_token_def)
  then show ?thesis
    using assms commas_to_blanks_token [OF assms]
    by (simp add: parts_of_def split_ws_def is_token_def)
qed

lemma mnemonic_tokens:
  "is_token ''li''" "is_token ''mv''" "is_token ''j''" "is_token ''addi''" "is_token ''jal''"
  "is_token ''x0''" "is_token ''0''"
  by (simp_all add: is_token_def is_space_def)

lemma parts_of_li:
  assumes "is_token rd" "is_token imm"
  shows "parts_of (''li '' @ rd @ '','' @ imm) = [''li'', rd, imm]"
    and "parts_of (''addi '' @ rd @ '',x0,'' @ imm) = [''addi'', rd, ''x0'', imm]"
proof -
  have "''li '' @ rd @ '','' @ imm = ''li'' @ CHR '' '' # (rd @ CHR '','' # imm)"
    by simp
  then show "parts_of (''li '' @ rd @ '','' @ imm) = [''li'', rd, imm]"
    by (simp only: parts_of_sep [OF mnemonic_tokens(1)] parts_of_sep [OF assms(1)]
        parts_of_end [OF assms(2)] simp_thms)
  have "''addi '' @ rd @ '',x0,'' @ imm
      = ''addi'' @ CHR '' '' # (rd @ CHR '','' # (''x0'' @ CHR '','' # imm))"
    by simp
  then show "parts_of (''addi '' @ rd @ '',x0,'' @ imm) = [''addi'', rd, ''x0'', imm]"
    by (simp only: parts_of_sep [OF mnemonic_tokens(4)] parts_of_sep [OF assms(1)]
        parts_of_sep [OF mnemonic_tokens(6)] parts_of_end [OF assms(2)] simp_thms)
qed


lemma parts_of_mv:
  assumes "is_token rd" "is_token rs"
  shows "parts_of (''mv '' @ rd @ '','' @ rs) = [''mv'', rd, rs]"
    and "parts_of (''addi '' @ rd @ '','' @ rs @ '',0'') = [''addi'', rd, rs, ''0'']"
proof -
  have "''mv '' @ rd @ '','' @ rs = ''mv'' @ CHR '' '' # (rd @ CHR '','' # rs)"
    by simp
  then show "parts_of (''mv '' @ rd @ '','' @ rs) = [''mv'', rd, rs]"
    by (simp only: parts_of_sep [OF mnemonic_tokens(2)] parts_of_sep [OF assms(1)]
        parts_of_end [OF assms(2)] simp_thms)
  have "''addi '' @ rd @ '','' @ rs @ '',0''
      = ''addi'' @ CHR '' '' # (rd @ CHR '','' # (rs @ CHR '','' # ''0''))"
    by simp
  then show "parts_of (''addi '' @ rd @ '','' @ rs @ '',0'') = [''addi'', rd, rs, ''0'']"
    by (simp only: parts_of_sep [OF mnemonic_tokens(4)] parts_of_sep [OF assms(1)]
        parts_of_sep [OF assms(2)] parts_of_end [OF mnemonic_tokens(7)] simp_thms)
qed

lemma parts_of_j:
  assumes "is_token target"
  shows "parts_of (''j '' @ target) = [''j'', target]"
    and "parts_of (''jal x0,'' @ target) = [''jal'', ''x0'', target]"
proof -
  have "''j '' @ target = ''j'' @ CHR '' '' # target"
    by simp
  then show "parts_of (''j '' @ target) = [''j'', target]"
    by (simp only: parts_of_sep [OF mnemonic_tokens(3)] parts_of_end [OF assms] simp_thms)
  have "''jal x0,'' @ target = ''jal'' @ CHR '' '' # (''x0'' @ CHR '','' # target)"
    by simp
  then show "parts_of (''jal x0,'' @ target) = [''jal'', ''x0'', target]"
    by (simp only: parts_of_sep [OF mnemonic_tokens(5)] parts_of_sep [OF mnemonic_tokens(6)]
        parts_of_end [OF assms] simp_thms)
qed

lemma lower_mnemonics:
  "lower ''li'' = ''li''" "lower ''mv'' = ''mv''" "lower ''j'' = ''j''"
  "lower ''addi'' = ''addi''" "lower ''jal'' = ''jal''"
  by code_simp+

lemma parse_x0: "parse_register ''x0'' = Inr 0"
  by code_simp

lemma parse_zero: "parse_immediate ''0'' 12 True = Inr 0"
  by code_simp

lemma assemble_li:
  assumes "parts_of line = [''li'', rd, imm]"
  shows "assemble_instruction lbls line addr =
     and_then (parse_register rd) (\<lambda>d.
     and_then (parse_immediate imm 12 True) (\<lambda>v. encode_i_type ''addi'' d 0 v))"
  unfolding assemble_instruction_def Let_def assms
  by (simp add: item_simps register_at_simps and_then_simps lower_mnemonics)

lemma assemble_mv:
  assumes "parts_of line = [''mv'', rd, rs]"
  shows "assemble_instruction lbls line addr =
     and_then (parse_register rd) (\<lambda>d.
     and_then (parse_register rs) (\<lambda>s. encode_i_type ''addi'' d s 0))"
  unfolding assemble_instruction_def Let_def assms
  by (simp add: item_simps register_at_simps and_then_simps lower_mnemonics)

lemma assemble_j:
  assumes "parts_of line = [''j'', target]"
  shows "assemble_instruction lbls line addr =
     and_then (target_offset lbls target addr 21) (\<lambda>offset. encode_j_type ''jal'' 0 offset)"
  unfolding assemble_instruction_def Let_def assms
  by (simp add: item_simps register_at_simps and_then_simps lower_mnemonics)

lemma assemble_addi:
  assumes "parts_of line = [''addi'', rd, rs, imm]"
  shows "assemble_instruction lbls line addr =
     and_then (parse_register rd) (\<lambda>d.
     and_then (parse_register rs) (\<lambda>s.
     and_then (parse_immediate imm 12 True) (\<lambda>v. encode_i_type ''addi'' d s v)))"
  unfolding assemble_instruction_def Let_def assms
  by (simp add: item_simps register_at_simps and_then_simps lower_mnemonics)

lemma assemble_jal:
  assumes "parts_of line = [''jal'', rd, target]"
  shows "assemble_instruction lbls line addr =
     and_then (parse_register rd) (\<lambda>d.
     and_then (target_offset lbls target addr 21) (\<lambda>offset. encode_j_type ''jal'' d offset))"
  unfolding assemble_instruction_def Let_def assms
  by (simp add: item_simps register_at_simps and_then_simps lower_mnemonics)

text \<open>
  C5: each pseudo-instruction gives what its expansion gives, the same word or the same
  error, for any label table and address and any operands written as tokens:
  \<^verbatim>\<open>nop\<close> as \<^verbatim>\<open>addi x0,x0,0\<close>, \<^verbatim>\<open>li rd,imm\<close> as \<^verbatim>\<open>addi rd,x0,imm\<close>, \<^verbatim>\<open>mv rd,rs\<close> as
  \<^verbatim>\<open>addi rd,rs,0\<close> and \<^verbatim>\<open>j target\<close> as \<^verbatim>\<open>jal x0,target\<close>, with the same resolution of
  the target.
\<close>

theorem pseudo_instructions:
  assumes "is_token rd" "is_token rs" "is_token imm" "is_token target"
  shows "assemble_instruction lbls ''nop'' addr = assemble_instruction lbls ''addi x0,x0,0'' addr
       \<and> assemble_instruction lbls (''li '' @ rd @ '','' @ imm) addr
           = assemble_instruction lbls (''addi '' @ rd @ '',x0,'' @ imm) addr
       \<and> assemble_instruction lbls (''mv '' @ rd @ '','' @ rs) addr
           = assemble_instruction lbls (''addi '' @ rd @ '','' @ rs @ '',0'') addr
       \<and> assemble_instruction lbls (''j '' @ target) addr
           = assemble_instruction lbls (''jal x0,'' @ target) addr"
proof (intro conjI)
  have "assemble_instruction lbls ''nop'' addr = Inr 0x13" by code_simp
  moreover have "assemble_instruction lbls ''addi x0,x0,0'' addr = Inr 0x13" by code_simp
  ultimately show "assemble_instruction lbls ''nop'' addr
      = assemble_instruction lbls ''addi x0,x0,0'' addr"
    by simp
  show "assemble_instruction lbls (''li '' @ rd @ '','' @ imm) addr
      = assemble_instruction lbls (''addi '' @ rd @ '',x0,'' @ imm) addr"
    unfolding assemble_li [OF parts_of_li(1) [OF assms(1,3)]]
      assemble_addi [OF parts_of_li(2) [OF assms(1,3)]]
    by (simp add: parse_x0 and_then_simps)
  show "assemble_instruction lbls (''mv '' @ rd @ '','' @ rs) addr
      = assemble_instruction lbls (''addi '' @ rd @ '','' @ rs @ '',0'') addr"
    unfolding assemble_mv [OF parts_of_mv(1) [OF assms(1,2)]]
      assemble_addi [OF parts_of_mv(2) [OF assms(1,2)]]
    by (simp add: parse_zero and_then_simps)
  show "assemble_instruction lbls (''j '' @ target) addr
      = assemble_instruction lbls (''jal x0,'' @ target) addr"
    unfolding assemble_j [OF parts_of_j(1) [OF assms(4)]]
      assemble_jal [OF parts_of_j(2) [OF assms(4)]]
    by (simp add: parse_x0 and_then_simps)
qed

text \<open>
  The statement at \<^verbatim>\<open>li x5,-3\<close>, \<^verbatim>\<open>mv x5,x6\<close> and \<^verbatim>\<open>j top\<close>, at address 8 with
  \<^verbatim>\<open>top\<close> at address 0.
\<close>

theorem pseudo_instructions_witness:
  "assemble_instruction [''top'' \<mapsto> 0] ''li x5,-3'' 8 = Inr 0xFFD00293
   \<and> assemble_instruction [''top'' \<mapsto> 0] ''mv x5,x6'' 8 = Inr 0x00030293
   \<and> assemble_instruction [''top'' \<mapsto> 0] ''j top'' 8 = Inr 0xFF9FF06F
   \<and> assemble_instruction [''top'' \<mapsto> 0] ''nop'' 8 = Inr 0x00000013"
proof -
  have t: "is_token ''x5''" "is_token ''x6''" "is_token ''-3''" "is_token ''top''"
    by (simp_all add: is_token_def is_space_def)
  have e: "assemble_instruction [''top'' \<mapsto> 0] ''addi x5,x0,-3'' 8 = Inr 0xFFD00293"
    "assemble_instruction [''top'' \<mapsto> 0] ''addi x5,x6,0'' 8 = Inr 0x00030293"
    "assemble_instruction [''top'' \<mapsto> 0] ''addi x0,x0,0'' 8 = Inr 0x00000013"
    "assemble_instruction [''top'' \<mapsto> 0] ''jal x0,top'' 8 = Inr 0xFF9FF06F"
    by code_simp+
  from pseudo_instructions [OF t(1) t(2) t(3) t(4), of "[''top'' \<mapsto> 0]" 8]
  show ?thesis
    using e by simp
qed

subsection \<open>C7: the addresses given by the first pass\<close>

lemma strip_Nil: "strip [] = []"
  by (simp add: strip_def)

lemma first_pass_line_eq:
  "first_pass_line st n x =
     (let st1 = (case line_label x of
                   None \<Rightarrow> st
                 | Some l \<Rightarrow> st\<lparr>labels := (labels st)(l \<mapsto> current_address st)\<rparr>)
      in case line_instruction x of
           None \<Rightarrow> st1
         | Some t \<Rightarrow> st1\<lparr>instructions := instructions st1 @ [(current_address st1, t, n)],
                         current_address := current_address st1 + 4\<rparr>)"
  by (auto simp: first_pass_line_def line_label_def line_instruction_def Let_def strip_Nil)

lemma first_pass_loop_snoc:
  "first_pass_loop st n (xs @ [x]) = first_pass_line (first_pass_loop st n xs) (n + length xs) x"
  by (induction xs arbitrary: st n) simp_all

lemma pending_texts_snoc:
  "pending_texts n (xs @ [x]) =
     pending_texts n xs @ (case line_instruction x of None \<Rightarrow> [] | Some t \<Rightarrow> [(t, n + length xs)])"
  by (induction xs arbitrary: n) (simp_all split: option.splits)

lemma first_pass_Nil:
  "instructions (first_pass new_assembler []) = []" "current_address (first_pass new_assembler []) = 0"
  "labels (first_pass new_assembler []) = Map.empty"
  by (simp_all add: first_pass_def new_assembler_def)

lemma first_pass_snoc:
  "first_pass new_assembler (xs @ [x]) = first_pass_line (first_pass new_assembler xs) (Suc (length xs)) x"
  by (simp add: first_pass_def first_pass_loop_snoc)

lemma first_pass_texts:
  "map (\<lambda>(a, t, n). (t, n)) (instructions (first_pass new_assembler xs)) = pending_texts 1 xs"
proof (induction xs rule: rev_induct)
  case Nil
  show ?case by (simp add: first_pass_Nil)
next
  case (snoc x xs)
  then show ?case
    by (simp add: first_pass_snoc first_pass_line_eq pending_texts_snoc Let_def
        split: option.splits)
qed

lemma first_pass_count:
  "length (instructions (first_pass new_assembler xs)) = length (pending_texts 1 xs)"
  using first_pass_texts [of xs, THEN arg_cong, of length] by simp

lemma first_pass_invariant:
  "current_address (first_pass new_assembler xs) = 4 * int (length (instructions (first_pass new_assembler xs)))
   \<and> (\<forall>i < length (instructions (first_pass new_assembler xs)).
         fst (instructions (first_pass new_assembler xs) ! i) = 4 * int i)"
proof (induction xs rule: rev_induct)
  case Nil
  show ?case by (simp add: first_pass_Nil)
next
  case (snoc x xs)
  then show ?case
    by (auto simp: first_pass_snoc first_pass_line_eq Let_def nth_append
        split: option.splits)
qed

lemma first_pass_current:
  "current_address (first_pass new_assembler xs) = 4 * int (length (pending_texts 1 xs))"
  using first_pass_invariant [of xs] by (simp add: first_pass_count)

lemma first_pass_labels_snoc:
  "labels (first_pass new_assembler (xs @ [x])) =
     (case line_label x of
        None \<Rightarrow> labels (first_pass new_assembler xs)
      | Some l \<Rightarrow> (labels (first_pass new_assembler xs))(l \<mapsto> 4 * int (length (pending_texts 1 xs))))"
  by (simp add: first_pass_snoc first_pass_line_eq Let_def first_pass_current
      split: option.splits)

lemma first_pass_labels:
  assumes "labels (first_pass new_assembler xs) l = Some a"
  shows "\<exists>k < length xs. line_label (xs ! k) = Some l
           \<and> (\<forall>j. k < j \<and> j < length xs \<longrightarrow> line_label (xs ! j) \<noteq> Some l)
           \<and> a = 4 * int (length (pending_texts 1 (take k xs)))"
  using assms
proof (induction xs arbitrary: a rule: rev_induct)
  case Nil
  then show ?case by (simp add: first_pass_Nil)
next
  case (snoc x xs)
  show ?case
  proof (cases "line_label x = Some l")
    case True
    with snoc.prems have "a = 4 * int (length (pending_texts 1 xs))"
      by (simp add: first_pass_labels_snoc)
    with True show ?thesis
      by (intro exI [of _ "length xs"]) auto
  next
    case False
    with snoc.prems have "labels (first_pass new_assembler xs) l = Some a"
      by (auto simp: first_pass_labels_snoc split: option.splits if_splits)
    from snoc.IH [OF this] obtain k where k: "k < length xs" "line_label (xs ! k) = Some l"
      "\<forall>j. k < j \<and> j < length xs \<longrightarrow> line_label (xs ! j) \<noteq> Some l"
      "a = 4 * int (length (pending_texts 1 (take k xs)))"
      by blast
    have "\<forall>j. k < j \<and> j < length (xs @ [x]) \<longrightarrow> line_label ((xs @ [x]) ! j) \<noteq> Some l"
      using k(3) False by (auto simp: nth_append)
    with k(1,2,4) show ?thesis
      by (intro exI [of _ k]) (simp add: nth_append)
  qed
qed

lemma first_pass_registers:
  assumes "k < length xs" "line_label (xs ! k) = Some l"
  shows "labels (first_pass new_assembler (take (Suc k) xs)) l
           = Some (4 * int (length (pending_texts 1 (take k xs))))"
  using assms by (simp add: take_Suc_conv_app_nth first_pass_labels_snoc)

lemma first_pass_dom:
  assumes "k < length xs" "line_label (xs ! k) = Some l"
  shows "\<exists>a. labels (first_pass new_assembler xs) l = Some a"
  using assms
proof (induction xs rule: rev_induct)
  case Nil
  then show ?case by simp
next
  case (snoc x xs)
  show ?case
  proof (cases "k < length xs")
    case True
    with snoc.prems(2) have "line_label (xs ! k) = Some l" by (simp add: nth_append)
    from snoc.IH [OF True this] show ?thesis
      by (auto simp: first_pass_labels_snoc split: option.splits)
  next
    case False
    with snoc.prems have "line_label x = Some l" by (simp add: nth_append)
    then show ?thesis by (simp add: first_pass_labels_snoc)
  qed
qed

lemma first_pass_bound:
  assumes "k < length xs" "line_label (xs ! k) = Some l"
  shows "\<exists>k'. k \<le> k' \<and> k' < length xs \<and> line_label (xs ! k') = Some l
           \<and> (\<forall>j. k' < j \<and> j < length xs \<longrightarrow> line_label (xs ! j) \<noteq> Some l)
           \<and> labels (first_pass new_assembler xs) l
               = Some (4 * int (length (pending_texts 1 (take k' xs))))"
proof -
  from first_pass_dom [OF assms] obtain a
    where a: "labels (first_pass new_assembler xs) l = Some a" by blast
  from first_pass_labels [OF a] obtain k' where k': "k' < length xs"
    "line_label (xs ! k') = Some l"
    "\<forall>j. k' < j \<and> j < length xs \<longrightarrow> line_label (xs ! j) \<noteq> Some l"
    "a = 4 * int (length (pending_texts 1 (take k' xs)))"
    by blast
  have "k \<le> k'"
  proof (rule ccontr)
    assume "\<not> k \<le> k'"
    then have "k' < k" by simp
    with k'(3) assms show False by blast
  qed
  with k' a show ?thesis by blast
qed

lemma first_pass_bound_once:
  assumes "k < length xs" "line_label (xs ! k) = Some l"
    and "\<forall>j. k < j \<and> j < length xs \<longrightarrow> line_label (xs ! j) \<noteq> Some l"
  shows "labels (first_pass new_assembler xs) l
           = Some (4 * int (length (pending_texts 1 (take k xs))))"
proof -
  from first_pass_bound [OF assms(1,2)] obtain k' where k': "k \<le> k'" "k' < length xs"
    "line_label (xs ! k') = Some l"
    "labels (first_pass new_assembler xs) l
       = Some (4 * int (length (pending_texts 1 (take k' xs))))"
    by blast
  have "k' = k"
  proof (rule ccontr)
    assume "k' \<noteq> k"
    with k'(1) have "k < k'" by simp
    with assms(3) k'(2,3) show False by blast
  qed
  with k'(4) show ?thesis by simp
qed

text \<open>
  C7, as the code has it: after the first pass over any list of lines, the \<open>i\<close>-th
  pending instruction (counting from 0) has the address \<open>4 * i\<close>, a multiple of 4; the
  pending instructions are the texts of the lines that are not empty and not a label
  alone, in order, with their line numbers. A line that registers a label binds it,
  when the line is processed, to 4 times the number of instructions pending before that
  line, which is the address the next pending instruction gets. After the pass every
  registered name is bound, to the address given by the last line that registers it:
  by its own line when the name is registered once. Every entry of the final table
  comes from such a last registration.
\<close>

theorem first_pass_addresses:
  "(\<forall>i < length (instructions (first_pass new_assembler lines)).
       fst (instructions (first_pass new_assembler lines) ! i) = 4 * int i
     \<and> fst (instructions (first_pass new_assembler lines) ! i) mod 4 = 0)
   \<and> map (\<lambda>(a, t, n). (t, n)) (instructions (first_pass new_assembler lines))
       = pending_texts 1 lines
   \<and> (\<forall>k < length lines. \<forall>l. line_label (lines ! k) = Some l \<longrightarrow>
         labels (first_pass new_assembler (take (Suc k) lines)) l
           = Some (4 * int (length (pending_texts 1 (take k lines)))))
   \<and> (\<forall>k < length lines. \<forall>l. line_label (lines ! k) = Some l \<longrightarrow>
         (\<exists>k'. k \<le> k' \<and> k' < length lines \<and> line_label (lines ! k') = Some l
            \<and> (\<forall>j. k' < j \<and> j < length lines \<longrightarrow> line_label (lines ! j) \<noteq> Some l)
            \<and> labels (first_pass new_assembler lines) l
                = Some (4 * int (length (pending_texts 1 (take k' lines))))))
   \<and> (\<forall>k < length lines. \<forall>l. line_label (lines ! k) = Some l \<longrightarrow>
         (\<forall>j. k < j \<and> j < length lines \<longrightarrow> line_label (lines ! j) \<noteq> Some l) \<longrightarrow>
         labels (first_pass new_assembler lines) l
           = Some (4 * int (length (pending_texts 1 (take k lines)))))
   \<and> (\<forall>l a. labels (first_pass new_assembler lines) l = Some a \<longrightarrow>
         (\<exists>k < length lines. line_label (lines ! k) = Some l
            \<and> (\<forall>j. k < j \<and> j < length lines \<longrightarrow> line_label (lines ! j) \<noteq> Some l)
            \<and> a = 4 * int (length (pending_texts 1 (take k lines)))))"
proof (intro conjI allI impI)
  fix i
  assume "i < length (instructions (first_pass new_assembler lines))"
  with first_pass_invariant [of lines]
  show a: "fst (instructions (first_pass new_assembler lines) ! i) = 4 * int i"
    by blast
  show "fst (instructions (first_pass new_assembler lines) ! i) mod 4 = 0"
    unfolding a by simp
next
  show "map (\<lambda>(a, t, n). (t, n)) (instructions (first_pass new_assembler lines))
       = pending_texts 1 lines"
    by (rule first_pass_texts)
next
  fix k l
  assume "k < length lines" "line_label (lines ! k) = Some l"
  then show "labels (first_pass new_assembler (take (Suc k) lines)) l
           = Some (4 * int (length (pending_texts 1 (take k lines))))"
    by (rule first_pass_registers)
next
  fix k l
  assume "k < length lines" "line_label (lines ! k) = Some l"
  then show "\<exists>k'. k \<le> k' \<and> k' < length lines \<and> line_label (lines ! k') = Some l
            \<and> (\<forall>j. k' < j \<and> j < length lines \<longrightarrow> line_label (lines ! j) \<noteq> Some l)
            \<and> labels (first_pass new_assembler lines) l
                = Some (4 * int (length (pending_texts 1 (take k' lines))))"
    by (rule first_pass_bound)
next
  fix k l
  assume "k < length lines" "line_label (lines ! k) = Some l"
    "\<forall>j. k < j \<and> j < length lines \<longrightarrow> line_label (lines ! j) \<noteq> Some l"
  then show "labels (first_pass new_assembler lines) l
           = Some (4 * int (length (pending_texts 1 (take k lines))))"
    by (rule first_pass_bound_once)
next
  fix l a
  assume "labels (first_pass new_assembler lines) l = Some a"
  then show "\<exists>k < length lines. line_label (lines ! k) = Some l
            \<and> (\<forall>j. k < j \<and> j < length lines \<longrightarrow> line_label (lines ! j) \<noteq> Some l)
            \<and> a = 4 * int (length (pending_texts 1 (take k lines)))"
    by (rule first_pass_labels)
qed

text \<open>
  A six-line text with three instructions: the third has address 8, and \<^verbatim>\<open>loop\<close>, on a
  line of its own after one instruction, is bound to 4, when its line is processed and
  in the final table.
\<close>

theorem first_pass_addresses_witness:
  "fst (instructions (first_pass new_assembler
          [''start: addi x1,x0,1'', ''# set up'', ''loop:'', ''  add x2,x2,x1'',
           ''  bne x2,x3,loop ; again'', ''end:'']) ! 2) = 8
   \<and> labels (first_pass new_assembler
          [''start: addi x1,x0,1'', ''# set up'', ''loop:'']) ''loop'' = Some 4
   \<and> labels (first_pass new_assembler
          [''start: addi x1,x0,1'', ''# set up'', ''loop:'', ''  add x2,x2,x1'',
           ''  bne x2,x3,loop ; again'', ''end:'']) ''loop'' = Some 4
   \<and> instructions (first_pass new_assembler
          [''start: addi x1,x0,1'', ''# set up'', ''loop:'', ''  add x2,x2,x1'',
           ''  bne x2,x3,loop ; again'', ''end:''])
       = [(0, ''addi x1,x0,1'', 1), (4, ''add x2,x2,x1'', 4), (8, ''bne x2,x3,loop'', 5)]"
proof -
  define L where "L = [''start: addi x1,x0,1'', ''# set up'', ''loop:'', ''  add x2,x2,x1'',
           ''  bne x2,x3,loop ; again'', ''end:'']"
  have n: "(2::nat) < length (instructions (first_pass new_assembler L))"
    unfolding L_def by code_simp
  have k: "(2::nat) < length L" "line_label (L ! 2) = Some ''loop''"
    unfolding L_def by code_simp+
  have c: "length (pending_texts 1 (take 2 L)) = 1"
    unfolding L_def by code_simp
  have t: "take (Suc 2) L = [''start: addi x1,x0,1'', ''# set up'', ''loop:'']"
    unfolding L_def by simp
  have i: "instructions (first_pass new_assembler L)
      = [(0, ''addi x1,x0,1'', 1), (4, ''add x2,x2,x1'', 4), (8, ''bne x2,x3,loop'', 5)]"
    unfolding L_def by code_simp
  have later: "line_label (L ! 3) \<noteq> Some ''loop''" "line_label (L ! 4) \<noteq> Some ''loop''"
    "line_label (L ! 5) \<noteq> Some ''loop''"
    unfolding L_def by code_simp+
  have len: "length L = 6" unfolding L_def by simp
  have once: "\<forall>j. 2 < j \<and> j < length L \<longrightarrow> line_label (L ! j) \<noteq> Some ''loop''"
  proof (intro allI impI)
    fix j assume "2 < j \<and> j < length L"
    then have "j = 3 \<or> j = 4 \<or> j = 5" unfolding len by arith
    with later show "line_label (L ! j) \<noteq> Some ''loop''" by blast
  qed
  note T = first_pass_addresses [of L]
  from T [THEN conjunct1, THEN spec, THEN mp, OF n, THEN conjunct1]
  have a: "fst (instructions (first_pass new_assembler L) ! 2) = 8" by simp
  from T [THEN conjunct2, THEN conjunct2, THEN conjunct1, THEN spec, THEN mp, OF k(1),
      THEN spec, THEN mp, OF k(2)]
  have b: "labels (first_pass new_assembler [''start: addi x1,x0,1'', ''# set up'', ''loop:''])
      ''loop'' = Some 4"
    unfolding t c by simp
  from T [THEN conjunct2, THEN conjunct2, THEN conjunct2, THEN conjunct2, THEN conjunct1,
      THEN spec, THEN mp, OF k(1), THEN spec, THEN mp, OF k(2), THEN mp, OF once]
  have f: "labels (first_pass new_assembler L) ''loop'' = Some 4"
    unfolding c by simp
  from a b f i show ?thesis unfolding L_def by (intro conjI)
qed

text \<open>
  C7 as stated fails where a name is registered twice: \<^verbatim>\<open>a\<close> is registered on line 1,
  before the instruction at address 0, and again on line 3; after the pass it is bound
  to 4, not to 0.
\<close>

theorem first_pass_redefinition_counterexample:
  "line_label ([''a:'', ''nop'', ''a:'', ''nop''] ! 0) = Some ''a''
   \<and> instructions (first_pass new_assembler [''a:'', ''nop'', ''a:'', ''nop''])
       = [(0, ''nop'', 2), (4, ''nop'', 4)]
   \<and> labels (first_pass new_assembler [''a:'', ''nop'', ''a:'', ''nop'']) ''a'' = Some 4"
  by code_simp

subsection \<open>C8: the Verilog initialisation text\<close>

lemma run_code_le: "length (machine_code (run source)) \<le> length (instructions (run source))"
  using words_plus_diagnostics
    [of "labels (pending source)" "instructions (pending source)"]
  by (simp add: run_code run_instructions)

lemma run_labels: "labels (run source) = labels (pending source)"
  by (simp add: run_def second_pass_def second_pass_loop_fields pending_def)

lemma encoded_words_all:
  assumes "diagnostics_of lbls es = []" "i < length es"
  shows "length (encoded_words lbls es) = length es
       \<and> (case es ! i of (a, t, n) \<Rightarrow> assemble_instruction lbls t a = Inr (encoded_words lbls es ! i))"
  using assms
proof (induction es arbitrary: i)
  case Nil
  then show ?case by simp
next
  case (Cons e es)
  obtain a t n where e: "e = (a, t, n)" by (cases e)
  from Cons.prems(1) have d: "diagnostics_of lbls [e] = []" "diagnostics_of lbls es = []"
    by (simp_all add: diagnostics_of_Cons [of lbls e es])
  from d(1) obtain w where w: "assemble_instruction lbls t a = Inr w"
    by (cases "assemble_instruction lbls t a") (simp_all add: diagnostics_of_def e)
  then have c: "encoded_words lbls (e # es) = w # encoded_words lbls es"
    by (simp add: encoded_words_def e)
  have len: "length (encoded_words lbls es) = length es"
    using words_plus_diagnostics [of lbls es] d(2) by simp
  show ?case
  proof (cases i)
    case 0
    then show ?thesis using c [unfolded e] by (simp add: len e w)
  next
    case (Suc j)
    with Cons.prems(2) have "j < length es" by simp
    from Cons.IH [OF d(2) this] show ?thesis using c by (simp add: len Suc)
  qed
qed

lemma filler_count: "length [n ..< min (n + 5) 64] = min 5 (64 - n)"
  by simp

text \<open>
  C8: after the two passes the lines of the text are the header, one entry
  \<^verbatim>\<open>I_MEM_BLOCK[i]  = 32'hWORD;  // 0xADDR: text\<close> per machine word, paired with the
  \<open>i\<close>-th pending instruction (its own instruction when there is no diagnostic), then
  the comment and a bounded number of filler entries, \<open>min 5 (64 - n)\<close> of them with
  the indices from \<open>n\<close> on, all below the capacity 64 of the array, each holding
  \<^verbatim>\<open>32'h00000013\<close>, the word of \<^verbatim>\<open>nop\<close>; and the closing line. The capacity 64 and the
  bound 5 are literals of the code.
\<close>

theorem to_verilog_layout:
  "to_verilog_lines (run source) =
     verilog_header
     @ map (\<lambda>i. verilog_entry i (machine_code (run source) ! i, instructions (run source) ! i))
         [0 ..< length (machine_code (run source))]
     @ [[], ''        // Fill remaining with NOPs'']
     @ map verilog_filler
         [length (machine_code (run source)) ..< min (length (machine_code (run source)) + 5) 64]
     @ [''    end'']
   \<and> length [length (machine_code (run source))
               ..< min (length (machine_code (run source)) + 5) 64]
       = min 5 (64 - length (machine_code (run source)))
   \<and> (\<forall>i \<in> set [length (machine_code (run source))
               ..< min (length (machine_code (run source)) + 5) 64]. i < 64)
   \<and> (errors (run source) = [] \<longrightarrow>
        (\<forall>i < length (machine_code (run source)).
           case instructions (run source) ! i of (a, t, n) \<Rightarrow>
             assemble_instruction (labels (run source)) t a = Inr (machine_code (run source) ! i)))
   \<and> assemble_instruction lbls ''nop'' addr = Inr 0x00000013
   \<and> format_X 8 0x00000013 = ''00000013''
   \<and> verilog_entry 10 (0x00700293, (40, ''addi x5, x0, 7'', 12))
       = ''        I_MEM_BLOCK[10]  = 32'' @ [CHR 0x27] @ ''h00700293;  // 0x28: addi x5, x0, 7''
   \<and> verilog_filler 11
       = ''        I_MEM_BLOCK[11] = 32'' @ [CHR 0x27] @ ''h00000013;  // nop''"
proof (intro conjI)
  let ?n = "length (machine_code (run source))"
  have z: "length (zip (machine_code (run source)) (instructions (run source))) = ?n"
    using run_code_le [of source] by simp
  have "map (\<lambda>i. verilog_entry i (zip (machine_code (run source)) (instructions (run source)) ! i))
          [0 ..< ?n]
      = map (\<lambda>i. verilog_entry i (machine_code (run source) ! i, instructions (run source) ! i))
          [0 ..< ?n]"
    using run_code_le [of source] by (intro map_cong) simp_all
  then show "to_verilog_lines (run source) =
     verilog_header
     @ map (\<lambda>i. verilog_entry i (machine_code (run source) ! i, instructions (run source) ! i))
         [0 ..< ?n]
     @ [[], ''        // Fill remaining with NOPs'']
     @ map verilog_filler [?n ..< min (?n + 5) 64]
     @ [''    end'']"
    unfolding to_verilog_lines_def Let_def z by simp
  show "length [?n ..< min (?n + 5) 64] = min 5 (64 - ?n)"
    by (rule filler_count)
  show "\<forall>i \<in> set [?n ..< min (?n + 5) 64]. i < 64"
    by simp
  show "errors (run source) = [] \<longrightarrow>
        (\<forall>i < ?n. case instructions (run source) ! i of (a, t, n) \<Rightarrow>
             assemble_instruction (labels (run source)) t a = Inr (machine_code (run source) ! i))"
  proof (intro impI allI)
    fix i
    assume e: "errors (run source) = []" and i: "i < ?n"
    from e have d: "diagnostics_of (labels (pending source)) (instructions (pending source)) = []"
      by (simp add: run_errors)
    from i run_code_le [of source] have "i < length (instructions (pending source))"
      by (simp add: run_instructions)
    from encoded_words_all [OF d this]
    show "case instructions (run source) ! i of (a, t, n) \<Rightarrow>
             assemble_instruction (labels (run source)) t a = Inr (machine_code (run source) ! i)"
      by (simp add: run_code run_instructions run_labels)
  qed
  show "assemble_instruction lbls ''nop'' addr = Inr 0x00000013" by code_simp
  show "format_X 8 0x00000013 = ''00000013''" by code_simp
  show "verilog_entry 10 (0x00700293, (40, ''addi x5, x0, 7'', 12))
       = ''        I_MEM_BLOCK[10]  = 32'' @ [CHR 0x27] @ ''h00700293;  // 0x28: addi x5, x0, 7''"
    by (simp add: verilog_entry_def format_X_def zero_fill_def numeral_2_eq_2)
  show "verilog_filler 11
       = ''        I_MEM_BLOCK[11] = 32'' @ [CHR 0x27] @ ''h00000013;  // nop''"
    by code_simp
qed

text \<open>The text of the one-line program \<^verbatim>\<open>addi x5, x0, 7\<close>: one entry and five fillers.\<close>

theorem to_verilog_layout_witness:
  "to_verilog_lines (run ''addi x5, x0, 7'') =
     verilog_header
     @ [verilog_entry 0 (0x00700293, (0, ''addi x5, x0, 7'', 1))]
     @ [[], ''        // Fill remaining with NOPs'']
     @ map verilog_filler [1, 2, 3, 4, 5]
     @ [''    end'']
   \<and> assemble_instruction (labels (run ''addi x5, x0, 7'')) ''addi x5, x0, 7'' 0
       = Inr 0x00700293"
proof -
  have c: "machine_code (run ''addi x5, x0, 7'') = [0x00700293]" by code_simp
  have i: "instructions (run ''addi x5, x0, 7'') = [(0, ''addi x5, x0, 7'', 1)]" by code_simp
  have e: "errors (run ''addi x5, x0, 7'') = []" by code_simp
  have n: "0 < length (machine_code (run ''addi x5, x0, 7''))" by (simp add: c)
  have u: "[Suc 0 ..< 6] = [1, 2, 3, 4, 5]" by code_simp
  note T = to_verilog_layout [of "''addi x5, x0, 7''"]
  from T [THEN conjunct1]
  have a: "to_verilog_lines (run ''addi x5, x0, 7'') =
     verilog_header
     @ [verilog_entry 0 (0x00700293, (0, ''addi x5, x0, 7'', 1))]
     @ [[], ''        // Fill remaining with NOPs'']
     @ map verilog_filler [1, 2, 3, 4, 5]
     @ [''    end'']"
    unfolding c i by (simp add: u)
  from T [THEN conjunct2, THEN conjunct2, THEN conjunct2, THEN conjunct1, THEN mp, OF e,
      THEN spec, THEN mp, OF n]
  have b: "assemble_instruction (labels (run ''addi x5, x0, 7'')) ''addi x5, x0, 7'' 0
       = Inr 0x00700293"
    unfolding c i by simp
  from a b show ?thesis by (rule conjI)
qed

end
